theory Spec2Isabelle
  imports Complex_Main "HOL-Library.Char_ord" "HOL-Library.List_Lexorder"
    "HOL-Library.Product_Lexorder" "HOL-Library.AList"
begin

text \<open>
  The flow aggregation of \<open>scrtt.plotting.sankey\<close>: the class \<open>Sankey\<close> with its constructor,
  \<open>calculate_flows\<close>, the part of \<open>plot_sankey\<close> before the drawing, and the two metrics
  \<open>compute_flow_consistency\<close> and \<open>compute_flow_entropy\<close>, with the helpers
  \<open>_calculate_entropy\<close>, \<open>_expected_flow_entropy\<close> and \<open>_format_flow\<close>. Frames are lists of
  rows, exceptions are values of a sum type, and the object is a record passed in and
  returned.
\<close>

section \<open>Numbers: the float values of numpy and pandas\<close>

text \<open>
  The program computes with 64-bit floats through numpy and pandas. A value is modelled
  as a finite real, one of the two infinities, or NaN. The special values follow
  IEEE 754 as numpy applies it (\<open>0 / 0 = NaN\<close>, \<open>x / 0 = \<plusminus>inf\<close>, \<open>log 0 = -inf\<close>,
  \<open>0 * inf = NaN\<close>, \<open>inf - inf = NaN\<close>); finite values are exact reals, so rounding
  and overflow are not modelled and the two zeros are not told apart (a division by
  zero takes the sign of its numerator).
\<close>

datatype fl = Fin real | PInf | NInf | NaN

fun fneg :: "fl \<Rightarrow> fl" where
  "fneg (Fin a) = Fin (- a)"
| "fneg PInf = NInf"
| "fneg NInf = PInf"
| "fneg NaN = NaN"

fun fadd :: "fl \<Rightarrow> fl \<Rightarrow> fl" where
  "fadd (Fin a) (Fin b) = Fin (a + b)"
| "fadd NaN y = NaN"
| "fadd x NaN = NaN"
| "fadd PInf NInf = NaN"
| "fadd NInf PInf = NaN"
| "fadd PInf y = PInf"
| "fadd x PInf = PInf"
| "fadd NInf y = NInf"
| "fadd x NInf = NInf"

text \<open>The sign of a value that is not NaN, as an infinity of that sign (zero has none).\<close>

fun inf_of_sign :: "real \<Rightarrow> fl" where
  "inf_of_sign a = (if a = 0 then NaN else if 0 < a then PInf else NInf)"

fun fmul :: "fl \<Rightarrow> fl \<Rightarrow> fl" where
  "fmul (Fin a) (Fin b) = Fin (a * b)"
| "fmul NaN y = NaN"
| "fmul x NaN = NaN"
| "fmul PInf (Fin b) = inf_of_sign b"
| "fmul NInf (Fin b) = inf_of_sign (- b)"
| "fmul (Fin a) PInf = inf_of_sign a"
| "fmul (Fin a) NInf = inf_of_sign (- a)"
| "fmul PInf PInf = PInf"
| "fmul NInf NInf = PInf"
| "fmul PInf NInf = NInf"
| "fmul NInf PInf = NInf"

fun fdiv :: "fl \<Rightarrow> fl \<Rightarrow> fl" where
  "fdiv (Fin a) (Fin b) = (if b = 0 then inf_of_sign a else Fin (a / b))"
| "fdiv NaN y = NaN"
| "fdiv x NaN = NaN"
| "fdiv (Fin a) PInf = Fin 0"
| "fdiv (Fin a) NInf = Fin 0"
| "fdiv PInf (Fin b) = (if 0 \<le> b then PInf else NInf)"
| "fdiv NInf (Fin b) = (if 0 \<le> b then NInf else PInf)"
| "fdiv PInf PInf = NaN"
| "fdiv PInf NInf = NaN"
| "fdiv NInf PInf = NaN"
| "fdiv NInf NInf = NaN"

text \<open>\<open>np.log\<close>: \<open>-inf\<close> at zero and NaN on a negative argument (with a warning only).\<close>

fun flog :: "fl \<Rightarrow> fl" where
  "flog (Fin a) = (if 0 < a then Fin (ln a) else if a = 0 then NInf else NaN)"
| "flog PInf = PInf"
| "flog NInf = NaN"
| "flog NaN = NaN"

text \<open>\<open>ndarray.sum()\<close>: NaN propagates.\<close>

definition np_sum :: "fl list \<Rightarrow> fl" where
  "np_sum xs = foldl fadd (Fin 0) xs"

text \<open>
  \<open>Series.sum()\<close>, taken with its default \<open>skipna=True\<close>: NaN entries are left out.
  \<open>np.sum\<close> applied to a Series is this method too, since numpy hands a reduction of
  an object that is not an \<open>ndarray\<close> to the object's own method of that name.
\<close>

definition series_sum :: "fl list \<Rightarrow> fl" where
  "series_sum xs = np_sum (filter (\<lambda>x. x \<noteq> NaN) xs)"

text \<open>\<open>np.nansum\<close>: NaN entries are replaced by zero, then summed.\<close>

definition replace_nan :: "fl \<Rightarrow> fl" where
  "replace_nan x = (if x = NaN then Fin 0 else x)"

definition nansum :: "fl list \<Rightarrow> fl" where
  "nansum xs = np_sum (map replace_nan xs)"

section \<open>Entropy of a group of flows\<close>

text \<open>
  \<open>_calculate_entropy(x)\<close>, called by \<open>groupby(...).apply\<close> with a Series \<open>x\<close>:
  \<open>x /= x.sum()\<close>, then \<open>-np.sum(x * np.log(x))\<close>. The division in place acts on the
  group's own copy of the values, so the frame that was grouped keeps its values.
\<close>

definition calculate_entropy :: "fl list \<Rightarrow> fl" where
  "calculate_entropy x =
     (let x' = map (\<lambda>v. fdiv v (series_sum x)) x
      in fneg (series_sum (map (\<lambda>v. fmul v (flog v)) x')))"

section \<open>Flow tables and the metrics computed from them\<close>

text \<open>
  A flow table is the frame returned by \<open>calculate_flows\<close>: one row per
  \<open>(source, target)\<close> key with the columns \<open>outflow\<close> and \<open>inflow\<close>.
\<close>

record flow_row =
  source :: string
  target :: string
  outflow :: fl
  inflow :: fl

type_synonym flow_df = "flow_row list"

datatype group_var = Source | Target

datatype flow_var = Outflow | Inflow

fun group_col :: "group_var \<Rightarrow> flow_row \<Rightarrow> string" where
  "group_col Source r = source r"
| "group_col Target r = target r"

fun flow_col :: "flow_var \<Rightarrow> flow_row \<Rightarrow> fl" where
  "flow_col Outflow r = outflow r"
| "flow_col Inflow r = inflow r"

text \<open>
  \<open>flow_df.groupby(group_var)[flow_var]\<close>: the group keys in sorted order (pandas sorts
  them by default) and, for a key, the values of its rows in the order of the frame.
\<close>

definition group_keys :: "group_var \<Rightarrow> flow_df \<Rightarrow> string list" where
  "group_keys gv df = sort (remdups (map (group_col gv) df))"

definition group_vals :: "group_var \<Rightarrow> flow_var \<Rightarrow> flow_df \<Rightarrow> string \<Rightarrow> fl list" where
  "group_vals gv fv df k = map (flow_col fv) (filter (\<lambda>r. group_col gv r = k) df)"

text \<open>
  \<open>_expected_flow_entropy(flow_df, group_var, flow_var)\<close>. The two grouped series have
  the same index, so their product is taken position by position.
\<close>

definition group_sums :: "group_var \<Rightarrow> flow_var \<Rightarrow> flow_df \<Rightarrow> fl list" where
  "group_sums gv fv df = map (\<lambda>k. series_sum (group_vals gv fv df k)) (group_keys gv df)"

definition group_weights :: "group_var \<Rightarrow> flow_var \<Rightarrow> flow_df \<Rightarrow> fl list" where
  "group_weights gv fv df =
     (let weights = group_sums gv fv df
      in map (\<lambda>w. fdiv w (series_sum weights)) weights)"

definition group_entropies :: "group_var \<Rightarrow> flow_var \<Rightarrow> flow_df \<Rightarrow> fl list" where
  "group_entropies gv fv df =
     map (\<lambda>k. calculate_entropy (group_vals gv fv df k)) (group_keys gv df)"

definition expected_flow_entropy :: "flow_df \<Rightarrow> group_var \<Rightarrow> flow_var \<Rightarrow> fl" where
  "expected_flow_entropy df gv fv =
     nansum (map2 fmul (group_weights gv fv df) (group_entropies gv fv df))"

section \<open>The transport model and the group assignment table\<close>

text \<open>
  The exceptions the modelled code can raise. \<open>TransportError\<close> stands for whatever
  the transport model's \<open>push_forward\<close> raises.
\<close>

datatype error = KeyError | ValueError | TypeError | AttributeError | TransportError

definition bindE :: "error + 'a \<Rightarrow> ('a \<Rightarrow> error + 'b) \<Rightarrow> error + 'b" where
  "bindE r f = (case r of Inl e \<Rightarrow> Inl e | Inr x \<Rightarrow> f x)"

type_synonym obs = string

text \<open>An \<open>AnnData\<close>: the matrix \<open>X\<close>, one row per observation and one column per variable.\<close>

record anndata =
  X :: "fl list list"
  obs_names :: "obs list"
  var_names :: "string list"

text \<open>
  \<open>OTModel\<close> lives in \<open>scrtt.models.trajectory\<close>. The aggregator reads its metadata
  table (here the pairs of an observation and its value in the column \<open>time_var\<close>), its
  time points, and calls \<open>push_forward(adata, t_a, t_b, normalize, norm_axis)\<close>, which is
  taken as a parameter: a function of its arguments that returns a state or raises.
\<close>

record OTModel =
  meta :: "(obs \<times> real) list"
  timepoints :: "real list"
  push_forward :: "anndata \<Rightarrow> real \<Rightarrow> real \<Rightarrow> bool \<Rightarrow> nat \<Rightarrow> error + anndata"

text \<open>A data frame of floats: its column labels and its rows, each with its index label.\<close>

record dataframe =
  columns :: "string list"
  rows :: "(obs \<times> fl list) list"

text \<open>A label as the caller gives it, before \<open>astype(str)\<close>: an integer or a string.\<close>

datatype label = LInt int | LStr string

fun str_nat :: "nat \<Rightarrow> string" where
  "str_nat n = (if n < 10 then [''0123456789'' ! n]
                else str_nat (n div 10) @ [''0123456789'' ! (n mod 10)])"

definition str_int :: "int \<Rightarrow> string" where
  "str_int i = (if i < 0 then CHR ''-'' # str_nat (nat (- i)) else str_nat (nat i))"

fun str_label :: "label \<Rightarrow> string" where
  "str_label (LInt i) = str_int i"
| "str_label (LStr s) = s"

text \<open>
  The argument \<open>subsets\<close> of the constructor: a \<open>pd.Series\<close> of one label per
  observation, or a \<open>pd.DataFrame\<close> of membership weights with its column labels.
\<close>

datatype group_input =
  Series "(obs \<times> label) list"
| DataFrame "label list" "(obs \<times> fl list) list"

text \<open>
  \<open>pd.get_dummies\<close>: one indicator column per distinct label, the labels in sorted
  order (pandas puts numbers before strings when both occur).
\<close>

definition categories :: "label list \<Rightarrow> label list" where
  "categories ls =
     map LInt (sort (remdups (concat (map (\<lambda>l. case l of LInt i \<Rightarrow> [i] | LStr s \<Rightarrow> []) ls))))
     @ map LStr (sort (remdups (concat (map (\<lambda>l. case l of LInt i \<Rightarrow> [] | LStr s \<Rightarrow> [s]) ls))))"

definition get_dummies :: "(obs \<times> label) list \<Rightarrow> label list \<times> (obs \<times> fl list) list" where
  "get_dummies ser =
     (let cats = categories (map snd ser)
      in (cats, map (\<lambda>(ob, l). (ob, map (\<lambda>c. if c = l then Fin 1 else Fin 0) cats)) ser))"

section \<open>The aggregator\<close>

text \<open>
  The fields of a \<open>Sankey\<close> object that the computations read. The colours and the
  endpoint width only reach the drawing routine and are left out. \<open>flow_dfs\<close> is the
  cache: \<open>None\<close>, or a dict from \<open>(t0, t1)\<close> to a flow table, kept in insertion order.
\<close>

type_synonym cache = "((real \<times> real) \<times> flow_df) list"

record sankey =
  ot_model :: OTModel
  subsets :: dataframe
  group_order :: "string list"
  cache_flow_dfs :: bool
  flow_dfs :: "cache option"

text \<open>\<open>Sankey.__init__\<close>.\<close>

definition Sankey_init ::
  "OTModel \<Rightarrow> group_input \<Rightarrow> string list option \<Rightarrow> bool \<Rightarrow> sankey" where
  "Sankey_init m subsets_in group_order_in cache_flag =
     (let (labels, rws) = (case subsets_in of
                             Series ser \<Rightarrow> get_dummies ser
                           | DataFrame ls rws \<Rightarrow> (ls, rws));
          cols = map str_label labels
      in \<lparr>ot_model = m,
          subsets = \<lparr>columns = cols, rows = rws\<rparr>,
          group_order = (case group_order_in of None \<Rightarrow> cols | Some g \<Rightarrow> g),
          cache_flow_dfs = cache_flag,
          flow_dfs = (if cache_flag then Some [] else None)\<rparr>)"

subsection \<open>Computing a flow table\<close>

text \<open>
  \<open>subsets.loc[ix, :]\<close>: the rows whose index label is in \<open>ix\<close>, in the order of
  \<open>ix\<close>; a label that the frame does not have raises \<open>KeyError\<close>.
\<close>

definition loc :: "dataframe \<Rightarrow> obs list \<Rightarrow> error + (obs \<times> fl list) list" where
  "loc df ix =
     (if set ix \<subseteq> set (map fst (rows df))
      then Inr (concat (map (\<lambda>l. filter (\<lambda>r. fst r = l) (rows df)) ix))
      else Inl KeyError)"

text \<open>\<open>s / s.values.sum()\<close>: every cell divided by the sum of all cells.\<close>

definition values_sum :: "(obs \<times> fl list) list \<Rightarrow> fl" where
  "values_sum rs = np_sum (concat (map snd rs))"

definition renormalize :: "(obs \<times> fl list) list \<Rightarrow> (obs \<times> fl list) list" where
  "renormalize rs = map (\<lambda>(ob, r). (ob, map (\<lambda>v. fdiv v (values_sum rs)) r)) rs"

text \<open>
  Modelled from the spec: \<open>window\<close> of \<open>scrtt.utils\<close>, which is not among the sources.
  The hop path is the ordered sequence of day pairs whose time points fall within
  \<open>[t0, t1]\<close>: the pairs of neighbours of the selected time points.
\<close>

definition window :: "'a list \<Rightarrow> ('a \<times> 'a) list" where
  "window xs = zip xs (tl xs)"

definition hop_path :: "OTModel \<Rightarrow> real \<Rightarrow> real \<Rightarrow> (real \<times> real) list" where
  "hop_path m t0 t1 = window (filter (\<lambda>t. t0 \<le> t \<and> t \<le> t1) (timepoints m))"

text \<open>
  The loop over the day pairs: each hop pushes the outflow state forward with
  \<open>norm_axis=1\<close>, then the inflow state with \<open>norm_axis=0\<close>.
\<close>

fun hops ::
  "(anndata \<Rightarrow> real \<Rightarrow> real \<Rightarrow> bool \<Rightarrow> nat \<Rightarrow> error + anndata) \<Rightarrow> (real \<times> real) list \<Rightarrow>
     anndata \<times> anndata \<Rightarrow> error + anndata \<times> anndata" where
  "hops pf [] st = Inr st"
| "hops pf (day_pair # ps) st =
     bindE (pf (fst st) (fst day_pair) (snd day_pair) True 1) (\<lambda>out_st.
     bindE (pf (snd st) (fst day_pair) (snd day_pair) True 0) (\<lambda>in_st.
     hops pf ps (out_st, in_st)))"

text \<open>
  \<open>a.X.T @ b\<close> for \<open>a.X\<close> with \<open>v\<close> columns and \<open>b\<close> with \<open>g\<close> columns: the sum over
  the rows of the outer products of a row of \<open>a.X\<close> with the row of \<open>b\<close> at the same
  position. numpy raises \<open>ValueError\<close> when the two have different numbers of rows.
\<close>

definition outer :: "fl list \<Rightarrow> fl list \<Rightarrow> fl list list" where
  "outer a b = map (\<lambda>x. map (\<lambda>y. fmul x y) b) a"

definition mat_add :: "fl list list \<Rightarrow> fl list list \<Rightarrow> fl list list" where
  "mat_add m n = map2 (map2 fadd) m n"

definition matmul_T :: "nat \<Rightarrow> nat \<Rightarrow> fl list list \<Rightarrow> fl list list \<Rightarrow> error + fl list list" where
  "matmul_T v g a b =
     (if length a \<noteq> length b then Inl ValueError
      else Inr (foldl mat_add (replicate v (replicate g (Fin 0))) (map2 outer a b)))"

text \<open>\<open>flow / flow.sum()\<close> on a matrix.\<close>

definition mat_normalize :: "fl list list \<Rightarrow> fl list list" where
  "mat_normalize m = map (map (\<lambda>v. fdiv v (np_sum (concat m)))) m"

text \<open>
  \<open>_format_flow(flow, p0, p1, name)\<close>. \<open>pd.DataFrame(flow, index, columns)\<close> raises
  \<open>ValueError\<close> unless the matrix has one row per index label and one column per column
  label; \<open>reset_index(names=['source'])\<close> raises it when a column is already called
  \<open>source\<close>, and \<open>melt\<close> (pandas 2) when a column is called as the value column. The
  melted frame lists the columns one after the other, each from its first row to its last.
\<close>

definition melt ::
  "string list \<Rightarrow> string list \<Rightarrow> fl list list \<Rightarrow> (string \<times> string \<times> fl) list" where
  "melt p0_columns p1_columns flow =
     concat (map (\<lambda>j. map (\<lambda>i. (p0_columns ! i, p1_columns ! j, flow ! i ! j))
                           [0..<length p0_columns])
                 [0..<length p1_columns])"

definition format_flow ::
  "fl list list \<Rightarrow> string list \<Rightarrow> string list \<Rightarrow> string \<Rightarrow> error + (string \<times> string \<times> fl) list" where
  "format_flow flow p0_columns p1_columns name =
     (if length flow \<noteq> length p0_columns \<or> (\<exists>r \<in> set flow. length r \<noteq> length p1_columns)
      then Inl ValueError
      else if ''source'' \<in> set p1_columns then Inl ValueError
      else if name \<in> set (''source'' # p1_columns) then Inl ValueError
      else Inr (melt p0_columns p1_columns flow))"

text \<open>\<open>pd.merge(outflow, inflow, on=['source', 'target'])\<close>: an inner join on the key.\<close>

definition merge :: "(string \<times> string \<times> fl) list \<Rightarrow> (string \<times> string \<times> fl) list \<Rightarrow> flow_df" where
  "merge out_df in_df =
     concat (map (\<lambda>(s, t, v). map (\<lambda>(s', t', w). \<lparr>source = s, target = t, outflow = v, inflow = w\<rparr>)
                                   (filter (\<lambda>(s', t', w). s' = s \<and> t' = t) in_df))
                 out_df)"

text \<open>\<open>meta.index[meta[time_var] == t]\<close>: the observations of a time point.\<close>

definition obs_at :: "OTModel \<Rightarrow> real \<Rightarrow> obs list" where
  "obs_at m t = map fst (filter (\<lambda>(ob, t'). t' = t) (meta m))"

text \<open>
  \<open>ad.AnnData(s0)\<close>: the state made of a frame, its values as \<open>X\<close>, its index as the
  observation names and its columns as the variable names. For a frame without a
  column the constructor finds no type for \<open>X\<close> and raises \<open>ValueError\<close>.
\<close>

definition AnnData :: "string list \<Rightarrow> (obs \<times> fl list) list \<Rightarrow> error + anndata" where
  "AnnData cols rs =
     (if cols = [] then Inl ValueError
      else Inr \<lparr>X = map snd rs, obs_names = map fst rs, var_names = cols\<rparr>)"

text \<open>The body of \<open>calculate_flows\<close> up to the merged frame.\<close>

definition flows_frame :: "sankey \<Rightarrow> real \<Rightarrow> real \<Rightarrow> error + flow_df" where
  "flows_frame s t0 t1 =
     (let m = ot_model s;
          cols = columns (subsets s);
          ix_t0 = obs_at m t0;
          ix_t1 = obs_at m t1
      in bindE (loc (subsets s) ix_t0) (\<lambda>s0.
         bindE (loc (subsets s) ix_t1) (\<lambda>s1.
         let s0 = renormalize s0;
             s1 = renormalize s1;
             day_pairs = hop_path m t0 t1
         in bindE (AnnData cols s0) (\<lambda>out0.
            bindE (AnnData cols s0) (\<lambda>in0.
            bindE (hops (push_forward m) day_pairs (out0, in0)) (\<lambda>(out_st, in_st).
            bindE (matmul_T (length (var_names out_st)) (length cols) (X out_st) (map snd s1))
              (\<lambda>out_m.
            bindE (matmul_T (length (var_names in_st)) (length cols) (X in_st) (map snd s1))
              (\<lambda>in_m.
            bindE (format_flow (mat_normalize out_m) cols cols ''outflow'') (\<lambda>out_df.
            bindE (format_flow (mat_normalize in_m) cols cols ''inflow'') (\<lambda>in_df.
            Inr (merge out_df in_df)))))))))))"

text \<open>
  \<open>calculate_flows(t0, t1)\<close>: the frame, stored under \<open>(t0, t1)\<close> when caching is on.
  An exception leaves the object as it was.
\<close>

definition calculate_flows :: "sankey \<Rightarrow> real \<Rightarrow> real \<Rightarrow> (error + flow_df) \<times> sankey" where
  "calculate_flows s t0 t1 =
     (case flows_frame s t0 t1 of
        Inl e \<Rightarrow> (Inl e, s)
      | Inr flow_df \<Rightarrow>
          if cache_flow_dfs s then
            (case flow_dfs s of
               None \<Rightarrow> (Inl TypeError, s)
             | Some c \<Rightarrow> (Inr flow_df, s\<lparr>flow_dfs := Some (AList.update (t0, t1) flow_df c)\<rparr>))
          else (Inr flow_df, s))"

text \<open>
  \<open>plot_sankey(t0, t1)\<close> up to its call of the drawing routine \<open>plot_flows\<close>: the result
  is the frame handed to it, from which the rows with a zero flow have been dropped.
\<close>

definition drop_null :: "flow_df \<Rightarrow> flow_df" where
  "drop_null df = filter (\<lambda>r. \<not> (outflow r = Fin 0 \<or> inflow r = Fin 0)) df"

definition plot_sankey :: "sankey \<Rightarrow> real \<Rightarrow> real \<Rightarrow> (error + flow_df) \<times> sankey" where
  "plot_sankey s t0 t1 =
     (if cache_flow_dfs s then
        (case flow_dfs s of
           None \<Rightarrow> (Inl TypeError, s)
         | Some c \<Rightarrow>
             (case map_of c (t0, t1) of
                Some flow_df \<Rightarrow> (Inr (drop_null flow_df), s)
              | None \<Rightarrow> (case calculate_flows s t0 t1 of
                           (Inl e, s') \<Rightarrow> (Inl e, s')
                         | (Inr flow_df, s') \<Rightarrow> (Inr (drop_null flow_df), s'))))
      else (case calculate_flows s t0 t1 of
              (Inl e, s') \<Rightarrow> (Inl e, s')
            | (Inr flow_df, s') \<Rightarrow> (Inr (drop_null flow_df), s')))"

subsection \<open>Metrics over the cached tables\<close>

text \<open>
  \<open>pd.concat(self.flow_dfs.values(), keys=self.flow_dfs.keys())\<close>: the rows of all the
  cached tables, each with the key of its table. Without a table to concatenate
  \<open>pd.concat\<close> raises \<open>ValueError\<close>.
\<close>

type_synonym keyed_df = "((real \<times> real) \<times> flow_row) list"

definition concat_frames :: "cache \<Rightarrow> error + keyed_df" where
  "concat_frames c =
     (if c = [] then Inl ValueError
      else Inr (concat (map (\<lambda>(k, df). map (\<lambda>r. (k, r)) df) c)))"

text \<open>\<open>groupby(time_keys)\<close>: the keys in sorted order, and the rows of a key.\<close>

definition time_keys :: "keyed_df \<Rightarrow> (real \<times> real) list" where
  "time_keys frame = sort (remdups (map fst frame))"

definition time_group :: "keyed_df \<Rightarrow> real \<times> real \<Rightarrow> flow_df" where
  "time_group frame k = map snd (filter (\<lambda>kr. fst kr = k) frame)"

datatype direction = Forward | Backward

text \<open>
  \<open>compute_flow_consistency()\<close>: per key the sums of \<open>outflow\<close> and of \<open>inflow\<close> over
  the rows with \<open>source == target\<close>, melted into one row per direction and key.
\<close>

definition compute_flow_consistency ::
  "sankey \<Rightarrow> error + ((real \<times> real) \<times> direction \<times> fl) list" where
  "compute_flow_consistency s =
     (case flow_dfs s of
        None \<Rightarrow> Inl AttributeError
      | Some c \<Rightarrow>
          bindE (concat_frames c) (\<lambda>frame.
            let self_flow = filter (\<lambda>kr. source (snd kr) = target (snd kr)) frame;
                keys = time_keys self_flow
            in Inr (map (\<lambda>k. (k, Forward, series_sum (map outflow (time_group self_flow k)))) keys
                    @ map (\<lambda>k. (k, Backward, series_sum (map inflow (time_group self_flow k)))) keys)))"

text \<open>
  \<open>flow_df.groupby(time_keys + [group_var])[flow_var].sum()\<close>: a series indexed by the
  time key and the group, in sorted order; then
  \<open>sizes.groupby(time_keys).apply(_calculate_entropy)\<close>.
\<close>

definition marginal_sizes ::
  "group_var \<Rightarrow> flow_var \<Rightarrow> keyed_df \<Rightarrow> (((real \<times> real) \<times> string) \<times> fl) list" where
  "marginal_sizes gv fv frame =
     map (\<lambda>kg. (kg, series_sum (map (flow_col fv \<circ> snd)
                       (filter (\<lambda>kr. fst kr = fst kg \<and> group_col gv (snd kr) = snd kg) frame))))
         (sort (remdups (map (\<lambda>kr. (fst kr, group_col gv (snd kr))) frame)))"

definition sizes_entropy ::
  "(((real \<times> real) \<times> string) \<times> fl) list \<Rightarrow> ((real \<times> real) \<times> fl) list" where
  "sizes_entropy sizes =
     map (\<lambda>k. (k, calculate_entropy (map snd (filter (\<lambda>e. fst (fst e) = k) sizes))))
         (sort (remdups (map (fst \<circ> fst) sizes)))"

text \<open>
  \<open>compute_flow_entropy()\<close>. \<open>pd.concat([a, b], keys=['forward', 'backward'])\<close> labels
  the entries of \<open>a\<close> with \<open>forward\<close> and those of \<open>b\<close> with \<open>backward\<close>. The result
  frame has one row per direction and key, with the columns \<open>expected\<close> and \<open>prior\<close>
  aligned on that index (a missing entry is NaN).
\<close>

definition with_direction ::
  "((real \<times> real) \<times> fl) list \<Rightarrow> ((real \<times> real) \<times> fl) list \<Rightarrow> ((direction \<times> real \<times> real) \<times> fl) list" where
  "with_direction a b = map (\<lambda>(k, v). ((Forward, k), v)) a @ map (\<lambda>(k, v). ((Backward, k), v)) b"

definition compute_flow_entropy ::
  "sankey \<Rightarrow> error + ((direction \<times> real \<times> real) \<times> fl \<times> fl) list" where
  "compute_flow_entropy s =
     (case flow_dfs s of
        None \<Rightarrow> Inl AttributeError
      | Some c \<Rightarrow>
          bindE (concat_frames c) (\<lambda>frame.
            let expected_entropy_out =
                  map (\<lambda>k. (k, expected_flow_entropy (time_group frame k) Source Outflow))
                      (time_keys frame);
                expected_entropy_in =
                  map (\<lambda>k. (k, expected_flow_entropy (time_group frame k) Target Inflow))
                      (time_keys frame);
                expected_entropy = with_direction expected_entropy_out expected_entropy_in;
                src_sizes = marginal_sizes Source Outflow frame;
                src_entropy = sizes_entropy src_sizes;
                tgt_sizes = marginal_sizes Target Inflow frame;
                tgt_entropy = sizes_entropy tgt_sizes;
                prior_entropy = with_direction tgt_entropy src_entropy
            in Inr (map (\<lambda>(i, e). (i, e, (case map_of prior_entropy i of
                                              None \<Rightarrow> NaN | Some p \<Rightarrow> p)))
                        expected_entropy)))"

section \<open>Notions used in the statements\<close>

text \<open>A matrix with \<open>n\<close> rows of \<open>k\<close> cells each.\<close>

definition rect :: "nat \<Rightarrow> nat \<Rightarrow> 'a list list \<Rightarrow> bool" where
  "rect n k m = (length m = n \<and> (\<forall>r \<in> set m. length r = k))"

text \<open>
  The flow table of two square matrices over the group labels: one row per pair of a
  source and a target, in the order of \<open>melt\<close>.
\<close>

definition cross_table :: "string list \<Rightarrow> fl list list \<Rightarrow> fl list list \<Rightarrow> flow_df" where
  "cross_table cols a b =
     concat (map (\<lambda>j. map (\<lambda>i. \<lparr>source = cols ! i, target = cols ! j,
                                   outflow = a ! i ! j, inflow = b ! i ! j\<rparr>)
                           [0..<length cols])
                 [0..<length cols])"

text \<open>The index pairs of a square matrix in the order of \<open>melt\<close>.\<close>

definition idx_pairs :: "nat \<Rightarrow> (nat \<times> nat) list" where
  "idx_pairs g = concat (map (\<lambda>j. map (\<lambda>i. (i, j)) [0..<g]) [0..<g])"

text \<open>A value that is a finite number, and the number it is.\<close>

fun is_fin :: "fl \<Rightarrow> bool" where
  "is_fin (Fin a) = True"
| "is_fin x = False"

fun the_fin :: "fl \<Rightarrow> real" where
  "the_fin (Fin a) = a"
| "the_fin x = 0"


text \<open>
  A state over the observations of time point \<open>t\<close>: one row per observation of \<open>t\<close> and
  one column per group.
\<close>

definition state_over :: "OTModel \<Rightarrow> nat \<Rightarrow> real \<Rightarrow> anndata \<Rightarrow> bool" where
  "state_over m g t st =
     (length (X st) = length (obs_at m t) \<and> (\<forall>r \<in> set (X st). length r = g)
      \<and> length (var_names st) = g)"

text \<open>
  The entropy of the specification: \<open>H(p) = - \<Sum> p\<^sub>i ln p\<^sub>i\<close> with \<open>0 ln 0 = 0\<close>.
\<close>

definition shannon :: "real list \<Rightarrow> real" where
  "shannon p = - (\<Sum>x\<leftarrow>p. if x = 0 then 0 else x * ln x)"

text \<open>The mass of a group of a flow table whose flows are finite.\<close>

definition group_mass :: "group_var \<Rightarrow> flow_var \<Rightarrow> flow_df \<Rightarrow> string \<Rightarrow> real" where
  "group_mass gv fv df k = sum_list (map the_fin (group_vals gv fv df k))"

text \<open>
  The expected entropy of the specification: the average, over the conditioning groups,
  of the entropy of the conditional distribution of a group, weighted with the group's
  share of the total mass; a group of mass zero contributes zero.
\<close>

definition spec_expected_entropy :: "flow_df \<Rightarrow> group_var \<Rightarrow> flow_var \<Rightarrow> real" where
  "spec_expected_entropy df gv fv =
     (\<Sum>k\<leftarrow>group_keys gv df.
        if group_mass gv fv df k = 0 then 0
        else group_mass gv fv df k / (\<Sum>k'\<leftarrow>group_keys gv df. group_mass gv fv df k')
             * shannon (map (\<lambda>v. the_fin v / group_mass gv fv df k) (group_vals gv fv df k)))"

section \<open>Example inputs\<close>

text \<open>
  A transport model over two time points with two observations each, whose
  \<open>push_forward\<close> hands the state on unchanged, and three observations \<open>a\<close>, \<open>c\<close>,
  \<open>d\<close> labelled \<open>A\<close> and one, \<open>b\<close>, labelled \<open>B\<close>.
\<close>

definition pf_keep :: "anndata \<Rightarrow> real \<Rightarrow> real \<Rightarrow> bool \<Rightarrow> nat \<Rightarrow> error + anndata" where
  "pf_keep st a b nrm ax = Inr st"

definition ex_model :: OTModel where
  "ex_model = \<lparr>meta = [(''a'', 0), (''b'', 0), (''c'', 1), (''d'', 1)],
               timepoints = [0, 1], push_forward = pf_keep\<rparr>"

definition ex_input :: group_input where
  "ex_input = Series [(''a'', LStr ''A''), (''b'', LStr ''B''), (''c'', LStr ''A''),
                      (''d'', LStr ''A'')]"

definition ex_sankey :: sankey where
  "ex_sankey = Sankey_init ex_model ex_input None True"

text \<open>
  The table of the span \<open>(0, 1)\<close> of this example, and the aggregator once the table is cached.
\<close>

definition ex_table :: flow_df where
  "ex_table = [\<lparr>source = ''A'', target = ''A'', outflow = Fin (1/2), inflow = Fin (1/2)\<rparr>,
               \<lparr>source = ''B'', target = ''A'', outflow = Fin (1/2), inflow = Fin (1/2)\<rparr>,
               \<lparr>source = ''A'', target = ''B'', outflow = Fin 0, inflow = Fin 0\<rparr>,
               \<lparr>source = ''B'', target = ''B'', outflow = Fin 0, inflow = Fin 0\<rparr>]"

definition ex_cached :: sankey where
  "ex_cached = ex_sankey\<lparr>flow_dfs := Some [((0, 1), ex_table)]\<rparr>"

text \<open>
  A membership frame whose only observation at time 0 has weight zero in every group.
\<close>

definition ex_zero_model :: OTModel where
  "ex_zero_model = \<lparr>meta = [(''a'', 0), (''c'', 1)], timepoints = [0, 1], push_forward = pf_keep\<rparr>"

definition ex_zero_input :: group_input where
  "ex_zero_input = DataFrame [LStr ''A'', LStr ''B'']
                     [(''a'', [Fin 0, Fin 0]), (''c'', [Fin 1, Fin 0])]"

definition ex_zero_sankey :: sankey where
  "ex_zero_sankey = Sankey_init ex_zero_model ex_zero_input None True"

definition ex_nan_table :: flow_df where
  "ex_nan_table = [\<lparr>source = ''A'', target = ''A'', outflow = NaN, inflow = NaN\<rparr>,
                   \<lparr>source = ''B'', target = ''A'', outflow = NaN, inflow = NaN\<rparr>,
                   \<lparr>source = ''A'', target = ''B'', outflow = NaN, inflow = NaN\<rparr>,
                   \<lparr>source = ''B'', target = ''B'', outflow = NaN, inflow = NaN\<rparr>]"

text \<open>
  Inputs whose labels \<open>1\<close> (a number) and \<open>''1''\<close> (a string) become the same string.
\<close>

definition ex_collide_frame :: group_input where
  "ex_collide_frame = DataFrame [LInt 1, LStr ''1''] [(''a'', [Fin 1, Fin 0]), (''b'', [Fin 0, Fin 1])]"

definition ex_collide_series :: group_input where
  "ex_collide_series = Series [(''a'', LInt 1), (''b'', LStr ''1'')]"




text \<open>
  The table of the reversed span \<open>(1, 0)\<close> of the first example, and the first example
  with a single observation at time 1.
\<close>

definition ex_rev_table :: flow_df where
  "ex_rev_table = [\<lparr>source = ''A'', target = ''A'', outflow = Fin (1/2), inflow = Fin (1/2)\<rparr>,
                   \<lparr>source = ''B'', target = ''A'', outflow = Fin 0, inflow = Fin 0\<rparr>,
                   \<lparr>source = ''A'', target = ''B'', outflow = Fin (1/2), inflow = Fin (1/2)\<rparr>,
                   \<lparr>source = ''B'', target = ''B'', outflow = Fin 0, inflow = Fin 0\<rparr>]"

definition ex_uneven_sankey :: sankey where
  "ex_uneven_sankey = ex_sankey\<lparr>ot_model := \<lparr>meta = [(''a'', 0), (''b'', 0), (''c'', 1)],
                                               timepoints = [0, 1], push_forward = pf_keep\<rparr>\<rparr>"

text \<open>
  A table with a source group \<open>B\<close> of mass zero and a source group \<open>A\<close> whose flows have a
  zero entry; and the rows of \<open>ex_table\<close> with the key of their span.
\<close>

definition ex_entropy_table :: flow_df where
  "ex_entropy_table = [\<lparr>source = ''A'', target = ''A'', outflow = Fin (1/2), inflow = Fin 1\<rparr>,
                       \<lparr>source = ''A'', target = ''B'', outflow = Fin (1/2), inflow = Fin 0\<rparr>,
                       \<lparr>source = ''A'', target = ''C'', outflow = Fin 0, inflow = Fin 0\<rparr>,
                       \<lparr>source = ''B'', target = ''A'', outflow = Fin 0, inflow = Fin 0\<rparr>,
                       \<lparr>source = ''B'', target = ''B'', outflow = Fin 0, inflow = Fin 0\<rparr>]"

definition ex_keyed :: keyed_df where
  "ex_keyed = map (Pair (0, 1)) ex_table"

text \<open>
  The first example without a cache; the rows of \<open>ex_table\<close> that \<open>plot_sankey\<close> hands to the
  drawing routine; and the aggregator of the frame with the colliding labels, with its
  table for the span \<open>(0, 0)\<close>.
\<close>

definition ex_uncached :: sankey where
  "ex_uncached = Sankey_init ex_model ex_input None False"

definition ex_shown :: flow_df where
  "ex_shown = [\<lparr>source = ''A'', target = ''A'', outflow = Fin (1/2), inflow = Fin (1/2)\<rparr>,
               \<lparr>source = ''B'', target = ''A'', outflow = Fin (1/2), inflow = Fin (1/2)\<rparr>]"

definition ex_collide_sankey :: sankey where
  "ex_collide_sankey = Sankey_init ex_model ex_collide_frame None True"

definition ex_collide_table :: flow_df where
  "ex_collide_table =
     concat (map (\<lambda>v. map (\<lambda>w. \<lparr>source = ''1'', target = ''1'', outflow = v, inflow = w\<rparr>)
                           [Fin (1/2), Fin 0, Fin 0, Fin (1/2)])
                 [Fin (1/2), Fin 0, Fin 0, Fin (1/2)])"

section \<open>The examples, evaluated\<close>

lemma ex_init:
  "Sankey_init ex_model ex_input None flag =
     \<lparr>ot_model = ex_model,
      subsets = \<lparr>columns = [''A'', ''B''],
                 rows = [(''a'', [Fin 1, Fin 0]), (''b'', [Fin 0, Fin 1]),
                         (''c'', [Fin 1, Fin 0]), (''d'', [Fin 1, Fin 0])]\<rparr>,
      group_order = [''A'', ''B''],
      cache_flow_dfs = flag,
      flow_dfs = (if flag then Some [] else None)\<rparr>"
  by (simp add: ex_input_def Sankey_init_def get_dummies_def categories_def Let_def)

lemma ex_sankey_eq:
  "ex_sankey =
     \<lparr>ot_model = ex_model,
      subsets = \<lparr>columns = [''A'', ''B''],
                 rows = [(''a'', [Fin 1, Fin 0]), (''b'', [Fin 0, Fin 1]),
                         (''c'', [Fin 1, Fin 0]), (''d'', [Fin 1, Fin 0])]\<rparr>,
      group_order = [''A'', ''B''],
      cache_flow_dfs = True,
      flow_dfs = Some []\<rparr>"
  by (simp add: ex_sankey_def ex_init)

lemmas eval_defs = flows_frame_def AnnData_def loc_def bindE_def renormalize_def values_sum_def
  np_sum_def hop_path_def window_def matmul_T_def outer_def mat_add_def mat_normalize_def
  format_flow_def melt_def merge_def obs_at_def upt_rec Let_def

lemma ex_frame: "flows_frame ex_sankey 0 1 = Inr ex_table"
  unfolding ex_sankey_eq
  by (auto simp add: ex_model_def pf_keep_def ex_table_def eval_defs)

lemma ex_calc: "calculate_flows ex_sankey 0 1 = (Inr ex_table, ex_cached)"
  by (simp add: calculate_flows_def ex_frame ex_cached_def) (simp add: ex_sankey_eq)

lemma ex_consistency:
  "compute_flow_consistency ex_cached =
     Inr [((0, 1), Forward, Fin (1/2)), ((0, 1), Backward, Fin (1/2))]"
  by (simp add: compute_flow_consistency_def ex_cached_def ex_table_def concat_frames_def
      bindE_def time_keys_def time_group_def series_sum_def np_sum_def Let_def)

section \<open>The cache\<close>

lemma calculate_flows_no_cache:
  "\<not> cache_flow_dfs s \<Longrightarrow> snd (calculate_flows s t0 t1) = s"
  by (simp add: calculate_flows_def split: sum.splits)

lemma flows_frame_cache_indep:
  "flows_frame (s\<lparr>flow_dfs := c\<rparr>) t0 t1 = flows_frame s t0 t1"
  by (simp add: flows_frame_def)

text \<open>
  C10. An aggregator constructed with \<open>cache_flow_dfs=False\<close> has \<open>None\<close> for its cache;
  \<open>calculate_flows\<close> leaves it so, storing nothing; the consistency and the entropy
  metric then raise (\<open>AttributeError\<close>). Whenever one of the two metrics returns a table,
  the cache is a dict holding at least one flow table.
\<close>

theorem metrics_need_cache:
  "flow_dfs (Sankey_init m inp go False) = None
   \<and> snd (calculate_flows (Sankey_init m inp go False) t0 t1) = Sankey_init m inp go False
   \<and> compute_flow_consistency (Sankey_init m inp go False) = Inl AttributeError
   \<and> compute_flow_entropy (Sankey_init m inp go False) = Inl AttributeError
   \<and> (compute_flow_consistency s = Inr ctab \<longrightarrow> (\<exists>c. flow_dfs s = Some c \<and> c \<noteq> []))
   \<and> (compute_flow_entropy s = Inr etab \<longrightarrow> (\<exists>c. flow_dfs s = Some c \<and> c \<noteq> []))"
proof -
  have a: "flow_dfs (Sankey_init m inp go False) = None"
    by (simp add: Sankey_init_def Let_def split: prod.splits)
  have b: "\<not> cache_flow_dfs (Sankey_init m inp go False)"
    by (simp add: Sankey_init_def Let_def split: prod.splits)
  have c: "compute_flow_consistency s = Inr ctab \<longrightarrow> (\<exists>c. flow_dfs s = Some c \<and> c \<noteq> [])"
    by (auto simp: compute_flow_consistency_def bindE_def concat_frames_def
             split: option.splits sum.splits if_splits)
  have d: "compute_flow_entropy s = Inr etab \<longrightarrow> (\<exists>c. flow_dfs s = Some c \<and> c \<noteq> [])"
    by (auto simp: compute_flow_entropy_def bindE_def concat_frames_def
             split: option.splits sum.splits if_splits)
  show ?thesis
    using a calculate_flows_no_cache[OF b] c d
    by (simp add: compute_flow_consistency_def compute_flow_entropy_def)
qed

theorem metrics_need_cache_witness:
  "flow_dfs (Sankey_init ex_model ex_input None False) = None
   \<and> snd (calculate_flows (Sankey_init ex_model ex_input None False) 0 1)
       = Sankey_init ex_model ex_input None False
   \<and> compute_flow_consistency (Sankey_init ex_model ex_input None False) = Inl AttributeError
   \<and> compute_flow_entropy (Sankey_init ex_model ex_input None False) = Inl AttributeError
   \<and> compute_flow_consistency ex_cached
       = Inr [((0, 1), Forward, Fin (1/2)), ((0, 1), Backward, Fin (1/2))]
   \<and> (\<exists>c. flow_dfs ex_cached = Some c \<and> c \<noteq> [])"
  using metrics_need_cache [of ex_model ex_input None 0 1 ex_cached
          "[((0, 1), Forward, Fin (1/2)), ((0, 1), Backward, Fin (1/2))]"]
        ex_consistency
  by simp

lemma ex_fields: "cache_flow_dfs ex_sankey" "flow_dfs ex_sankey = Some []"
  by (simp_all add: ex_sankey_eq)

text \<open>
  C8. A second call of \<open>calculate_flows\<close> with the same arguments, on the object as the
  first call left it, returns the same table and leaves the same object; the table does
  not depend on what the cache holds. With the cache on, a call that computes a table
  \<open>df\<close> returns it and writes it into the cache under \<open>(t0, t1)\<close>, leaving the other
  entries as they were, and the second call returns \<open>df\<close> again and writes it over the
  entry, which leaves the cache as the first call left it. The transport model's
  \<open>push_forward\<close> is a function of its arguments here: the two calls see the transport
  model in the same state.
\<close>

theorem calculate_flows_idempotent:
  "calculate_flows (snd (calculate_flows s t0 t1)) t0 t1 = calculate_flows s t0 t1
   \<and> flows_frame (s\<lparr>flow_dfs := c\<rparr>) t0 t1 = flows_frame s t0 t1
   \<and> (cache_flow_dfs s \<longrightarrow> flow_dfs s = Some c0 \<longrightarrow> flows_frame s t0 t1 = Inr df \<longrightarrow>
         calculate_flows s t0 t1
           = (Inr df, s\<lparr>flow_dfs := Some (AList.update (t0, t1) df c0)\<rparr>)
       \<and> map_of (AList.update (t0, t1) df c0) (t0, t1) = Some df
       \<and> (k \<noteq> (t0, t1) \<longrightarrow> map_of (AList.update (t0, t1) df c0) k = map_of c0 k)
       \<and> calculate_flows (s\<lparr>flow_dfs := Some (AList.update (t0, t1) df c0)\<rparr>) t0 t1
           = (Inr df, s\<lparr>flow_dfs := Some (AList.update (t0, t1) df c0)\<rparr>))"
proof -
  have 1: "calculate_flows (snd (calculate_flows s t0 t1)) t0 t1 = calculate_flows s t0 t1"
    by (auto simp: calculate_flows_def flows_frame_cache_indep split: sum.splits option.splits)
  have 2: "flows_frame (s\<lparr>flow_dfs := c\<rparr>) t0 t1 = flows_frame s t0 t1"
    by (rule flows_frame_cache_indep)
  have 3: "cache_flow_dfs s \<longrightarrow> flow_dfs s = Some c0 \<longrightarrow> flows_frame s t0 t1 = Inr df \<longrightarrow>
         calculate_flows s t0 t1
           = (Inr df, s\<lparr>flow_dfs := Some (AList.update (t0, t1) df c0)\<rparr>)
       \<and> map_of (AList.update (t0, t1) df c0) (t0, t1) = Some df
       \<and> (k \<noteq> (t0, t1) \<longrightarrow> map_of (AList.update (t0, t1) df c0) k = map_of c0 k)
       \<and> calculate_flows (s\<lparr>flow_dfs := Some (AList.update (t0, t1) df c0)\<rparr>) t0 t1
           = (Inr df, s\<lparr>flow_dfs := Some (AList.update (t0, t1) df c0)\<rparr>)"
    by (auto simp: calculate_flows_def flows_frame_cache_indep update_conv')
  show ?thesis using 1 2 3 by blast
qed

theorem calculate_flows_idempotent_witness:
  "cache_flow_dfs ex_sankey \<and> flow_dfs ex_sankey = Some [] \<and> flows_frame ex_sankey 0 1 = Inr ex_table
   \<and> calculate_flows ex_sankey 0 1 = (Inr ex_table, ex_cached)
   \<and> flow_dfs ex_cached = Some [((0, 1), ex_table)]
   \<and> map_of [((0::real, 1::real), ex_table)] (0, 1) = Some ex_table
   \<and> calculate_flows ex_cached 0 1 = (Inr ex_table, ex_cached)
   \<and> flows_frame (ex_sankey\<lparr>flow_dfs := None\<rparr>) 0 1 = Inr ex_table"
  using calculate_flows_idempotent [of ex_sankey 0 1 None "[]" ex_table "(0, 0)"] ex_fields
  by (simp add: ex_frame ex_cached_def)

section \<open>The shape of a flow table\<close>

lemma idx_pairs_product: "idx_pairs g = map prod.swap (List.product [0..<g] [0..<g])"
  by (simp add: idx_pairs_def product_concat_map map_concat comp_def)

lemma idx_pairs_distinct: "distinct (idx_pairs g)"
  by (simp add: idx_pairs_product distinct_map distinct_product)

lemma set_idx_pairs: "set (idx_pairs g) = {(i, j). i < g \<and> j < g}"
  by (auto simp: idx_pairs_def)

lemma melt_idx: "melt cols cols m = map (\<lambda>(i, j). (cols ! i, cols ! j, m ! i ! j)) (idx_pairs (length cols))"
  by (simp add: melt_def idx_pairs_def map_concat comp_def)

lemma cross_table_idx:
  "cross_table cols a b = map (\<lambda>(i, j). \<lparr>source = cols ! i, target = cols ! j,
                                   outflow = a ! i ! j, inflow = b ! i ! j\<rparr>) (idx_pairs (length cols))"
  by (simp add: cross_table_def idx_pairs_def map_concat comp_def)

lemma filter_key_distinct:
  assumes "distinct ps" "inj_on key (set ps)" "p \<in> set ps"
  shows "filter (\<lambda>q. key q = key p) ps = [p]"
  using assms
proof (induction ps)
  case Nil then show ?case by simp
next
  case (Cons a ps)
  show ?case
  proof (cases "a = p")
    case True
    have "filter (\<lambda>q. key q = key p) ps = []"
      using Cons.prems True by (auto simp: filter_empty_conv inj_on_def)
    then show ?thesis using True by simp
  next
    case False
    then have "key a \<noteq> key p" using Cons.prems by (auto simp: inj_on_def)
    moreover have "filter (\<lambda>q. key q = key p) ps = [p]"
      using Cons False by (auto simp: inj_on_def)
    ultimately show ?thesis by simp
  qed
qed

lemma concat_map_singleton:
  "(\<And>p. p \<in> set ps \<Longrightarrow> f p = [g p]) \<Longrightarrow> concat (map f ps) = map g ps"
  by (induction ps) auto

lemma merge_map_distinct:
  assumes "distinct ps" "inj_on key (set ps)"
  shows "merge (map (\<lambda>p. (fst (key p), snd (key p), fo p)) ps)
               (map (\<lambda>p. (fst (key p), snd (key p), fi p)) ps)
         = map (\<lambda>p. \<lparr>source = fst (key p), target = snd (key p), outflow = fo p, inflow = fi p\<rparr>) ps"
proof -
  have k: "\<And>p q. (fst (key q) = fst (key p) \<and> snd (key q) = snd (key p)) = (key q = key p)"
    by (auto simp: prod_eq_iff)
  show ?thesis
    unfolding merge_def
    by (simp add: map_concat comp_def filter_map case_prod_beta k)
       (rule concat_map_singleton, simp add: filter_key_distinct[OF assms])
qed

lemma merge_melt:
  assumes "distinct cols"
  shows "merge (melt cols cols a) (melt cols cols b) = cross_table cols a b"
proof -
  let ?key = "\<lambda>p. (cols ! fst p, cols ! snd p)"
  have inj: "inj_on ?key (set (idx_pairs (length cols)))"
    using assms by (auto simp: inj_on_def set_idx_pairs nth_eq_iff_index_eq)
  show ?thesis
    using merge_map_distinct[OF idx_pairs_distinct inj, of "\<lambda>p. a ! fst p ! snd p" "\<lambda>p. b ! fst p ! snd p"]
    by (simp add: melt_idx cross_table_idx split_def)
qed

lemma format_flow_Inr:
  "format_flow flow p0 p1 name = Inr d \<Longrightarrow> rect (length p0) (length p1) flow \<and> d = melt p0 p1 flow"
  by (auto simp: format_flow_def rect_def split: if_splits)

lemma rect_mat_normalize: "rect n k (mat_normalize m) = rect n k m"
  by (auto simp: rect_def mat_normalize_def)

lemma flows_frame_Inr:
  assumes "flows_frame s t0 t1 = Inr df"
  shows "\<exists>s0 s1 out_st in_st out_m in_m.
           loc (subsets s) (obs_at (ot_model s) t0) = Inr s0
         \<and> loc (subsets s) (obs_at (ot_model s) t1) = Inr s1
         \<and> hops (push_forward (ot_model s)) (hop_path (ot_model s) t0 t1)
              (\<lparr>X = map snd (renormalize s0), obs_names = map fst (renormalize s0),
                 var_names = columns (subsets s)\<rparr>,
               \<lparr>X = map snd (renormalize s0), obs_names = map fst (renormalize s0),
                 var_names = columns (subsets s)\<rparr>) = Inr (out_st, in_st)
         \<and> matmul_T (length (var_names out_st)) (length (columns (subsets s))) (X out_st)
              (map snd (renormalize s1)) = Inr out_m
         \<and> matmul_T (length (var_names in_st)) (length (columns (subsets s))) (X in_st)
              (map snd (renormalize s1)) = Inr in_m
         \<and> rect (length (columns (subsets s))) (length (columns (subsets s))) out_m
         \<and> rect (length (columns (subsets s))) (length (columns (subsets s))) in_m
         \<and> df = merge (melt (columns (subsets s)) (columns (subsets s)) (mat_normalize out_m))
                       (melt (columns (subsets s)) (columns (subsets s)) (mat_normalize in_m))
         \<and> columns (subsets s) \<noteq> []"
proof -
  let ?cols = "columns (subsets s)"
  let ?m = "ot_model s"
  obtain s0 where s0: "loc (subsets s) (obs_at ?m t0) = Inr s0"
    using assms by (cases "loc (subsets s) (obs_at ?m t0)") (auto simp: flows_frame_def bindE_def Let_def)
  obtain s1 where s1: "loc (subsets s) (obs_at ?m t1) = Inr s1"
    using assms s0 by (cases "loc (subsets s) (obs_at ?m t1)") (auto simp: flows_frame_def bindE_def Let_def)
  let ?a0 = "\<lparr>X = map snd (renormalize s0), obs_names = map fst (renormalize s0), var_names = ?cols\<rparr>"
  have ne: "?cols \<noteq> []"
    using assms s0 s1 by (auto simp: flows_frame_def bindE_def Let_def AnnData_def split: if_splits)
  have a0: "AnnData ?cols (renormalize s0) = Inr ?a0"
    using ne by (simp add: AnnData_def)
  obtain out_st in_st where h: "hops (push_forward ?m) (hop_path ?m t0 t1) (?a0, ?a0) = Inr (out_st, in_st)"
    using assms s0 s1 a0
    by (cases "hops (push_forward ?m) (hop_path ?m t0 t1) (?a0, ?a0)")
       (auto simp: flows_frame_def bindE_def Let_def)
  let ?mo = "matmul_T (length (var_names out_st)) (length ?cols) (X out_st) (map snd (renormalize s1))"
  let ?mi = "matmul_T (length (var_names in_st)) (length ?cols) (X in_st) (map snd (renormalize s1))"
  have eq1: "flows_frame s t0 t1 =
      bindE ?mo (\<lambda>out_m. bindE ?mi (\<lambda>in_m.
        bindE (format_flow (mat_normalize out_m) ?cols ?cols ''outflow'') (\<lambda>out_df.
        bindE (format_flow (mat_normalize in_m) ?cols ?cols ''inflow'') (\<lambda>in_df.
        Inr (merge out_df in_df)))))"
    using s0 s1 a0 h by (simp add: flows_frame_def bindE_def Let_def)
  obtain out_m where mo: "?mo = Inr out_m"
    using assms unfolding eq1 by (cases ?mo) (auto simp: bindE_def)
  obtain in_m where mi: "?mi = Inr in_m"
    using assms mo unfolding eq1 by (cases ?mi) (auto simp: bindE_def)
  obtain out_df where fo: "format_flow (mat_normalize out_m) ?cols ?cols ''outflow'' = Inr out_df"
    using assms mo mi unfolding eq1
    by (cases "format_flow (mat_normalize out_m) ?cols ?cols ''outflow''") (auto simp: bindE_def)
  obtain in_df where fi: "format_flow (mat_normalize in_m) ?cols ?cols ''inflow'' = Inr in_df"
    using assms mo mi fo unfolding eq1
    by (cases "format_flow (mat_normalize in_m) ?cols ?cols ''inflow''") (auto simp: bindE_def)
  have df: "df = merge out_df in_df"
    using assms mo mi fo fi unfolding eq1 by (simp add: bindE_def)
  show ?thesis
    using s0 s1 h mo mi format_flow_Inr[OF fo] format_flow_Inr[OF fi] df ne
    by (simp add: rect_mat_normalize)
qed

lemma calculate_flows_Inr:
  "calculate_flows s t0 t1 = (Inr df, s') \<Longrightarrow> flows_frame s t0 t1 = Inr df"
  by (auto simp: calculate_flows_def split: sum.splits if_splits option.splits)

lemma calculate_flows_cached:
  "calculate_flows s t0 t1 = (Inr df, s') \<Longrightarrow> cache_flow_dfs s \<Longrightarrow>
     \<exists>c. flow_dfs s = Some c \<and> s' = s\<lparr>flow_dfs := Some (AList.update (t0, t1) df c)\<rparr>"
  by (auto simp: calculate_flows_def split: sum.splits if_splits option.splits)

lemma calculate_flows_Inl:
  "calculate_flows s t0 t1 = (Inl e, s') \<Longrightarrow> s' = s"
  by (auto simp: calculate_flows_def split: sum.splits if_splits option.splits)

lemma flows_frame_cross:
  assumes "flows_frame s t0 t1 = Inr df" "distinct (columns (subsets s))"
  shows "\<exists>a b. rect (length (columns (subsets s))) (length (columns (subsets s))) a
             \<and> rect (length (columns (subsets s))) (length (columns (subsets s))) b
             \<and> df = cross_table (columns (subsets s)) (mat_normalize a) (mat_normalize b)"
proof -
  from flows_frame_Inr[OF assms(1)] obtain out_m in_m where
    "rect (length (columns (subsets s))) (length (columns (subsets s))) out_m"
    "rect (length (columns (subsets s))) (length (columns (subsets s))) in_m"
    "df = merge (melt (columns (subsets s)) (columns (subsets s)) (mat_normalize out_m))
                (melt (columns (subsets s)) (columns (subsets s)) (mat_normalize in_m))"
    by blast
  then show ?thesis
    unfolding merge_melt[OF assms(2)] by blast
qed

lemma map_by_index: "map f xs = map (\<lambda>i. f (xs ! i)) [0..<length xs]"
  by (rule nth_equalityI) auto

lemma cross_table_keys:
  "map (\<lambda>r. (source r, target r)) (cross_table cols a b)
     = concat (map (\<lambda>t. map (\<lambda>s. (s, t)) cols) cols)"
proof -
  have "concat (map (\<lambda>t. map (\<lambda>s. (s, t)) cols) cols)
      = concat (map (\<lambda>j. map (\<lambda>s. (s, cols ! j)) cols) [0..<length cols])"
    by (rule arg_cong[where f = concat], rule map_by_index)
  also have "\<dots> = concat (map (\<lambda>j. map (\<lambda>i. (cols ! i, cols ! j)) [0..<length cols]) [0..<length cols])"
    by (rule arg_cong[where f = concat], rule map_cong, simp, rule map_by_index)
  finally show ?thesis
    by (simp add: cross_table_def map_concat comp_def)
qed

section \<open>Zero flows are kept\<close>

lemma ex_zero_sankey_eq:
  "ex_zero_sankey =
     \<lparr>ot_model = ex_zero_model,
      subsets = \<lparr>columns = [''A'', ''B''],
                 rows = [(''a'', [Fin 0, Fin 0]), (''c'', [Fin 1, Fin 0])]\<rparr>,
      group_order = [''A'', ''B''],
      cache_flow_dfs = True,
      flow_dfs = Some []\<rparr>"
  by (simp add: ex_zero_sankey_def ex_zero_input_def Sankey_init_def Let_def)

lemma ex_zero_frame: "flows_frame ex_zero_sankey 0 1 = Inr ex_nan_table"
  unfolding ex_zero_sankey_eq
  by (auto simp add: ex_zero_model_def pf_keep_def ex_nan_table_def eval_defs)

lemma ex_zero_calc:
  "calculate_flows ex_zero_sankey 0 1
     = (Inr ex_nan_table, ex_zero_sankey\<lparr>flow_dfs := Some [((0, 1), ex_nan_table)]\<rparr>)"
  by (simp add: calculate_flows_def ex_zero_frame) (simp add: ex_zero_sankey_eq)

lemma plot_sankey_fresh:
  assumes "calculate_flows s t0 t1 = (Inr df, s')"
  shows "\<not> cache_flow_dfs s \<Longrightarrow> plot_sankey s t0 t1 = (Inr (drop_null df), s')"
    and "cache_flow_dfs s \<Longrightarrow> flow_dfs s = Some c \<Longrightarrow> map_of c (t0, t1) = None
           \<Longrightarrow> plot_sankey s t0 t1 = (Inr (drop_null df), s')"
  using assms by (simp_all add: plot_sankey_def)

lemma plot_sankey_hit:
  "cache_flow_dfs s \<Longrightarrow> flow_dfs s = Some c \<Longrightarrow> map_of c (t0, t1) = Some d
     \<Longrightarrow> plot_sankey s t0 t1 = (Inr (drop_null d), s)"
  by (simp add: plot_sankey_def)

text \<open>
  C9, as the code has it. With distinct group labels, the table that \<open>calculate_flows\<close>
  returns has one row for every pair of a source and a target group, whatever the flows
  are: no row is dropped for a zero flow. With the cache on, this full table is what the
  call writes into the cache under \<open>(t0, t1)\<close>; with the cache off the object is left as it
  was. \<open>plot_sankey\<close> takes the table from the cache, or from \<open>calculate_flows\<close> when the
  cache is off or has no entry for the span, and hands the drawing routine the rows
  without a zero flow; it leaves the object as \<open>calculate_flows\<close> left it, the full table
  in the cache, and an object with an entry for the span unchanged. With colliding
  labels, which the constructor accepts, the join of the outflow and the inflow frame
  multiplies the rows: two columns of the same label give sixteen rows.
\<close>

theorem flow_table_full_cross_product:
  assumes "calculate_flows s t0 t1 = (Inr df, s')" "distinct (columns (subsets s))"
  shows "map (\<lambda>r. (source r, target r)) df
           = concat (map (\<lambda>t. map (\<lambda>s. (s, t)) (columns (subsets s))) (columns (subsets s)))
         \<and> (cache_flow_dfs s \<longrightarrow>
              (\<exists>c. flow_dfs s = Some c
                 \<and> s' = s\<lparr>flow_dfs := Some (AList.update (t0, t1) df c)\<rparr>
                 \<and> map_of (AList.update (t0, t1) df c) (t0, t1) = Some df))
         \<and> (\<not> cache_flow_dfs s \<longrightarrow> s' = s \<and> plot_sankey s t0 t1 = (Inr (drop_null df), s))
         \<and> (cache_flow_dfs s \<longrightarrow> flow_dfs s = Some c \<longrightarrow> map_of c (t0, t1) = None \<longrightarrow>
              plot_sankey s t0 t1 = (Inr (drop_null df), s'))
         \<and> (cache_flow_dfs s \<longrightarrow> flow_dfs s = Some c \<longrightarrow> map_of c (t0, t1) = Some d \<longrightarrow>
              plot_sankey s t0 t1 = (Inr (drop_null d), s))"
proof -
  from flows_frame_cross[OF calculate_flows_Inr[OF assms(1)] assms(2)]
  obtain a b where "df = cross_table (columns (subsets s)) (mat_normalize a) (mat_normalize b)"
    by blast
  then have 1: "map (\<lambda>r. (source r, target r)) df
           = concat (map (\<lambda>t. map (\<lambda>s. (s, t)) (columns (subsets s))) (columns (subsets s)))"
    by (simp only: cross_table_keys)
  have 2: "cache_flow_dfs s \<longrightarrow>
              (\<exists>c. flow_dfs s = Some c
                 \<and> s' = s\<lparr>flow_dfs := Some (AList.update (t0, t1) df c)\<rparr>
                 \<and> map_of (AList.update (t0, t1) df c) (t0, t1) = Some df)"
    using calculate_flows_cached[OF assms(1)] by (auto simp: update_conv')
  have 3: "\<not> cache_flow_dfs s \<longrightarrow> s' = s \<and> plot_sankey s t0 t1 = (Inr (drop_null df), s)"
    using plot_sankey_fresh(1)[OF assms(1)] calculate_flows_no_cache[of s t0 t1] assms(1) by auto
  have 4: "cache_flow_dfs s \<longrightarrow> flow_dfs s = Some c \<longrightarrow> map_of c (t0, t1) = None \<longrightarrow>
              plot_sankey s t0 t1 = (Inr (drop_null df), s')"
    using plot_sankey_fresh(2)[OF assms(1)] by blast
  have 5: "cache_flow_dfs s \<longrightarrow> flow_dfs s = Some c \<longrightarrow> map_of c (t0, t1) = Some d \<longrightarrow>
              plot_sankey s t0 t1 = (Inr (drop_null d), s)"
    using plot_sankey_hit by blast
  show ?thesis using 1 2 3 4 5 by (intro conjI)
qed

lemma ex_calc_cached: "calculate_flows ex_cached 0 1 = (Inr ex_table, ex_cached)"
  by (simp add: calculate_flows_def ex_cached_def flows_frame_cache_indep ex_frame)

lemma ex_uncached_eq:
  "ex_uncached = ex_sankey\<lparr>cache_flow_dfs := False, flow_dfs := None\<rparr>"
  by (simp add: ex_uncached_def ex_init ex_sankey_eq)

lemma ex_uncached_frame: "flows_frame ex_uncached 0 1 = Inr ex_table"
proof -
  have "flows_frame ex_uncached 0 1 = flows_frame ex_sankey 0 1"
    by (simp add: ex_uncached_eq flows_frame_def)
  then show ?thesis by (simp add: ex_frame)
qed

lemma ex_uncached_calc: "calculate_flows ex_uncached 0 1 = (Inr ex_table, ex_uncached)"
  by (simp add: calculate_flows_def ex_uncached_frame) (simp add: ex_uncached_eq)

lemma ex_drop_null: "drop_null ex_table = ex_shown"
  by (simp add: drop_null_def ex_table_def ex_shown_def)

theorem flow_table_full_cross_product_witness:
  "calculate_flows ex_sankey 0 1 = (Inr ex_table, ex_cached)
   \<and> distinct (columns (subsets ex_sankey))
   \<and> map (\<lambda>r. (source r, target r)) ex_table
       = [(''A'', ''A''), (''B'', ''A''), (''A'', ''B''), (''B'', ''B'')]
   \<and> map outflow ex_table = [Fin (1/2), Fin (1/2), Fin 0, Fin 0]
   \<and> cache_flow_dfs ex_sankey \<and> flow_dfs ex_sankey = Some []
   \<and> flow_dfs ex_cached = Some [((0, 1), ex_table)]
   \<and> plot_sankey ex_sankey 0 1 = (Inr ex_shown, ex_cached)
   \<and> plot_sankey ex_cached 0 1 = (Inr ex_shown, ex_cached)
   \<and> plot_sankey ex_uncached 0 1 = (Inr ex_shown, ex_uncached)"
proof -
  have d: "distinct (columns (subsets ex_sankey))" by (simp add: ex_sankey_eq)
  have dc: "distinct (columns (subsets ex_cached))" by (simp add: ex_cached_def ex_sankey_eq)
  have du: "distinct (columns (subsets ex_uncached))" by (simp add: ex_uncached_eq ex_sankey_eq)
  have cc: "cache_flow_dfs ex_cached" "flow_dfs ex_cached = Some [((0, 1), ex_table)]"
    by (simp_all add: ex_cached_def ex_sankey_eq)
  have cu: "\<not> cache_flow_dfs ex_uncached" by (simp add: ex_uncached_eq)
  show ?thesis
    using flow_table_full_cross_product [OF ex_calc d, of "[]" ex_table]
          flow_table_full_cross_product [OF ex_calc_cached dc, of "[((0, 1), ex_table)]" ex_table]
          flow_table_full_cross_product [OF ex_uncached_calc du, of "[]" ex_table]
          d ex_calc ex_fields cc cu
    by (simp add: ex_drop_null) (simp add: ex_table_def)
qed

lemma ex_collide_sankey_eq:
  "ex_collide_sankey =
     \<lparr>ot_model = ex_model,
      subsets = \<lparr>columns = [''1'', ''1''],
                 rows = [(''a'', [Fin 1, Fin 0]), (''b'', [Fin 0, Fin 1])]\<rparr>,
      group_order = [''1'', ''1''],
      cache_flow_dfs = True,
      flow_dfs = Some []\<rparr>"
  by (simp add: ex_collide_sankey_def ex_collide_frame_def Sankey_init_def Let_def str_int_def)

lemma ex_collide_frame_result: "flows_frame ex_collide_sankey 0 0 = Inr ex_collide_table"
  unfolding ex_collide_sankey_eq
  by (auto simp add: ex_model_def pf_keep_def ex_collide_table_def eval_defs)

theorem flow_table_cross_product_counterexample:
  "columns (subsets ex_collide_sankey) = [''1'', ''1'']
   \<and> calculate_flows ex_collide_sankey 0 0
       = (Inr ex_collide_table,
          ex_collide_sankey\<lparr>flow_dfs := Some [((0, 0), ex_collide_table)]\<rparr>)
   \<and> length ex_collide_table = 16
   \<and> length (columns (subsets ex_collide_sankey)) * length (columns (subsets ex_collide_sankey)) = 4"
  by (simp add: calculate_flows_def ex_collide_frame_result)
     (simp add: ex_collide_sankey_eq ex_collide_table_def)

section \<open>Column sums\<close>

lemma is_fin_conv: "is_fin x \<longleftrightarrow> (\<exists>a. x = Fin a)"
  by (cases x) auto

lemma foldl_fadd_Fin: "foldl fadd (Fin a) (map Fin xs) = Fin (a + sum_list xs)"
  by (induction xs arbitrary: a) (auto simp: algebra_simps)

lemma np_sum_map_Fin: "np_sum (map Fin xs) = Fin (sum_list xs)"
  by (simp add: np_sum_def foldl_fadd_Fin)

lemma all_fin_map: "\<forall>x \<in> set xs. is_fin x \<Longrightarrow> xs = map Fin (map the_fin xs)"
  by (induction xs) (auto simp: is_fin_conv)

lemma fdiv_fin_cases:
  "is_fin (fdiv x T) \<Longrightarrow> is_fin x \<and> (T = PInf \<or> T = NInf \<or> (\<exists>t. T = Fin t \<and> t \<noteq> 0))"
  by (cases x; cases T) (auto split: if_splits)

lemma sum_list_concat_real: "sum_list (concat xss) = sum_list (map sum_list xss :: real list)"
  by (induction xss) auto

lemma sum_list_grid:
  "sum_list (concat (map (\<lambda>j. map (f j) [0..<n]) [0..<k])) = (\<Sum>j = 0..<k. \<Sum>i = 0..<n. (f j i :: real))"
  by (simp add: sum_list_concat_real comp_def interv_sum_list_conv_sum_set_nat)

lemma rect_grid:
  assumes "rect n k m"
  shows "m = map (\<lambda>i. map (\<lambda>j. m ! i ! j) [0..<k]) [0..<n]"
proof (rule nth_equalityI)
  show "length m = length (map (\<lambda>i. map (\<lambda>j. m ! i ! j) [0..<k]) [0..<n])"
    using assms by (simp add: rect_def)
next
  fix i assume "i < length m"
  then have "length (m ! i) = k" "i < n" using assms by (auto simp: rect_def)
  then show "m ! i = map (\<lambda>i. map (\<lambda>j. m ! i ! j) [0..<k]) [0..<n] ! i"
    by (auto intro: nth_equalityI)
qed

lemma mat_normalize_nth:
  assumes "rect n k m" "i < n" "j < k"
  shows "mat_normalize m ! i ! j = fdiv (m ! i ! j) (np_sum (concat m))"
  using assms by (auto simp: mat_normalize_def rect_def)

lemma normalized_sum_one:
  assumes r: "rect g g m" and g: "0 < g"
    and fin: "\<forall>i < g. \<forall>j < g. is_fin (mat_normalize m ! i ! j)"
  shows "np_sum (concat (map (\<lambda>j. map (\<lambda>i. mat_normalize m ! i ! j) [0..<g]) [0..<g])) = Fin 1"
proof -
  let ?T = "np_sum (concat m)"
  have cell: "\<And>i j. i < g \<Longrightarrow> j < g \<Longrightarrow> is_fin (m ! i ! j)
                \<and> (?T = PInf \<or> ?T = NInf \<or> (\<exists>t. ?T = Fin t \<and> t \<noteq> 0))"
    using fin mat_normalize_nth[OF r] fdiv_fin_cases by metis
  have grid: "m = map (\<lambda>i. map (\<lambda>j. m ! i ! j) [0..<g]) [0..<g]"
    by (rule rect_grid[OF r])
  have allfin: "\<forall>x \<in> set (concat m). is_fin x"
  proof
    fix x assume "x \<in> set (concat m)"
    then obtain row where row: "row \<in> set m" "x \<in> set row" by auto
    then obtain i where i: "i < length m" "m ! i = row" by (auto simp: in_set_conv_nth)
    from row obtain j where j: "j < length row" "row ! j = x" by (auto simp: in_set_conv_nth)
    have "i < g" "j < g" using r i j row by (auto simp: rect_def)
    then show "is_fin x" using cell[of i j] i j by simp
  qed
  define rs where "rs = map the_fin (concat m)"
  have cm: "concat m = map Fin rs"
    unfolding rs_def by (rule all_fin_map[OF allfin])
  define t where "t = sum_list rs"
  have T: "?T = Fin t"
    by (simp add: cm np_sum_map_Fin t_def)
  have t0: "t \<noteq> 0"
    using cell[OF g g] T by auto
  define c where "c = (\<lambda>i j. the_fin (m ! i ! j))"
  have mc: "\<And>i j. i < g \<Longrightarrow> j < g \<Longrightarrow> m ! i ! j = Fin (c i j)"
  proof -
    fix i j assume "i < g" "j < g"
    then have "is_fin (m ! i ! j)" using cell by blast
    then show "m ! i ! j = Fin (c i j)" by (cases "m ! i ! j") (auto simp: c_def)
  qed
  have "rs = map the_fin (concat (map (\<lambda>i. map (\<lambda>j. m ! i ! j) [0..<g]) [0..<g]))"
    unfolding rs_def by (subst grid) (rule refl)
  also have "\<dots> = concat (map (\<lambda>i. map (c i) [0..<g]) [0..<g])"
    by (simp add: map_concat comp_def c_def)
  finally have "t = (\<Sum>i = 0..<g. \<Sum>j = 0..<g. c i j)"
    by (simp add: t_def sum_list_grid)
  then have tswap: "t = (\<Sum>j = 0..<g. \<Sum>i = 0..<g. c i j)"
    by (simp add: sum.swap[of "\<lambda>i j. c i j"])
  have "concat (map (\<lambda>j. map (\<lambda>i. mat_normalize m ! i ! j) [0..<g]) [0..<g])
      = concat (map (\<lambda>j. map (\<lambda>i. Fin (c i j / t)) [0..<g]) [0..<g])"
    by (rule arg_cong[where f = concat], rule map_cong, rule refl, rule map_cong, rule refl)
       (simp add: mat_normalize_nth[OF r] mc T t0)
  also have "\<dots> = map Fin (concat (map (\<lambda>j. map (\<lambda>i. c i j / t) [0..<g]) [0..<g]))"
    by (simp add: map_concat comp_def)
  finally have "np_sum (concat (map (\<lambda>j. map (\<lambda>i. mat_normalize m ! i ! j) [0..<g]) [0..<g]))
      = Fin (\<Sum>j = 0..<g. \<Sum>i = 0..<g. c i j / t)"
    by (simp add: np_sum_map_Fin sum_list_grid)
  also have "(\<Sum>j = 0..<g. \<Sum>i = 0..<g. c i j / t) = (\<Sum>j = 0..<g. \<Sum>i = 0..<g. c i j) / t"
    by (simp add: sum_divide_distrib)
  also have "\<dots> = 1"
    using t0 by (simp add: tswap[symmetric])
  finally show ?thesis .
qed

lemma cross_table_outflow:
  "map outflow (cross_table cols a b)
     = concat (map (\<lambda>j. map (\<lambda>i. a ! i ! j) [0..<length cols]) [0..<length cols])"
  by (simp add: cross_table_def map_concat comp_def)

lemma cross_table_inflow:
  "map inflow (cross_table cols a b)
     = concat (map (\<lambda>j. map (\<lambda>i. b ! i ! j) [0..<length cols]) [0..<length cols])"
  by (simp add: cross_table_def map_concat comp_def)

lemma grid_all:
  assumes "\<forall>x \<in> set (concat (map (\<lambda>j. map (\<lambda>i. f i j) [0..<g]) [0..<g])). P x"
  shows "\<forall>i < g. \<forall>j < g. P (f i j)"
  using assms by auto

lemma cross_table_sum_one:
  assumes "rect (length cols) (length cols) a" "cols \<noteq> []"
    and "\<forall>x \<in> set (concat (map (\<lambda>j. map (\<lambda>i. mat_normalize a ! i ! j) [0..<length cols]) [0..<length cols])). is_fin x"
  shows "np_sum (concat (map (\<lambda>j. map (\<lambda>i. mat_normalize a ! i ! j) [0..<length cols]) [0..<length cols])) = Fin 1"
  using normalized_sum_one[OF assms(1) _ grid_all[OF assms(3)]] assms(2) by simp

text \<open>
  C7, as the code has it. With distinct group labels and at least one group, a table
  returned by \<open>calculate_flows\<close> whose \<open>outflow\<close> entries are all finite has an
  \<open>outflow\<close> column that sums to 1 over the full cross product, and likewise for
  \<open>inflow\<close> (in exact arithmetic: rounding is not modelled).
\<close>

theorem flow_columns_sum_to_one:
  assumes "calculate_flows s t0 t1 = (Inr df, s')"
    and "distinct (columns (subsets s))" and "columns (subsets s) \<noteq> []"
  shows "((\<forall>r \<in> set df. is_fin (outflow r)) \<longrightarrow> np_sum (map outflow df) = Fin 1)
       \<and> ((\<forall>r \<in> set df. is_fin (inflow r)) \<longrightarrow> np_sum (map inflow df) = Fin 1)"
proof -
  let ?cols = "columns (subsets s)"
  from flows_frame_cross[OF calculate_flows_Inr[OF assms(1)] assms(2)]
  obtain a b where ra: "rect (length ?cols) (length ?cols) a"
    and rb: "rect (length ?cols) (length ?cols) b"
    and df: "df = cross_table ?cols (mat_normalize a) (mat_normalize b)"
    by blast
  have o: "(\<forall>r \<in> set df. is_fin (outflow r)) \<longrightarrow> np_sum (map outflow df) = Fin 1"
  proof
    assume "\<forall>r \<in> set df. is_fin (outflow r)"
    then have "\<forall>x \<in> set (map outflow df). is_fin x" by simp
    then show "np_sum (map outflow df) = Fin 1"
      unfolding df cross_table_outflow by (rule cross_table_sum_one[OF ra assms(3)])
  qed
  have i: "(\<forall>r \<in> set df. is_fin (inflow r)) \<longrightarrow> np_sum (map inflow df) = Fin 1"
  proof
    assume "\<forall>r \<in> set df. is_fin (inflow r)"
    then have "\<forall>x \<in> set (map inflow df). is_fin x" by simp
    then show "np_sum (map inflow df) = Fin 1"
      unfolding df cross_table_inflow by (rule cross_table_sum_one[OF rb assms(3)])
  qed
  show ?thesis using o i by simp
qed

theorem flow_columns_sum_to_one_witness:
  "calculate_flows ex_sankey 0 1 = (Inr ex_table, ex_cached)
   \<and> distinct (columns (subsets ex_sankey)) \<and> columns (subsets ex_sankey) \<noteq> []
   \<and> list_all is_fin (map outflow ex_table) \<and> np_sum (map outflow ex_table) = Fin 1
   \<and> list_all is_fin (map inflow ex_table) \<and> np_sum (map inflow ex_table) = Fin 1"
proof -
  have d: "distinct (columns (subsets ex_sankey))" and n: "columns (subsets ex_sankey) \<noteq> []"
    by (simp_all add: ex_sankey_eq)
  have f: "\<forall>r \<in> set ex_table. is_fin (outflow r)" "\<forall>r \<in> set ex_table. is_fin (inflow r)"
    by (simp_all add: ex_table_def)
  show ?thesis
    using flow_columns_sum_to_one [OF ex_calc d n] d n f ex_calc
    by (simp add: list_all_iff)
qed

theorem flow_columns_sum_counterexample:
  "calculate_flows ex_zero_sankey 0 1
     = (Inr ex_nan_table, ex_zero_sankey\<lparr>flow_dfs := Some [((0, 1), ex_nan_table)]\<rparr>)
   \<and> (0::real) \<le> 1
   \<and> 0 \<in> set (timepoints (ot_model ex_zero_sankey))
   \<and> 1 \<in> set (timepoints (ot_model ex_zero_sankey))
   \<and> np_sum (map outflow ex_nan_table) = NaN
   \<and> np_sum (map inflow ex_nan_table) = NaN
   \<and> series_sum (map outflow ex_nan_table) = Fin 0"
  by (simp add: ex_zero_calc) (simp add: ex_zero_sankey_eq ex_zero_model_def ex_nan_table_def np_sum_def series_sum_def)

section \<open>Label collisions\<close>

text \<open>
  C6, as the code has it. The constructor turns every column label into its string and
  raises nothing: the columns of the table are the strings of the labels given (of the
  sorted distinct labels for a series), also when two of them are the same string.
\<close>

theorem sankey_init_columns:
  "columns (subsets (Sankey_init m (DataFrame ls rws) go flag)) = map str_label ls
   \<and> rows (subsets (Sankey_init m (DataFrame ls rws) go flag)) = rws
   \<and> columns (subsets (Sankey_init m (Series ser) go flag))
       = map str_label (categories (map snd ser))"
  by (simp add: Sankey_init_def get_dummies_def Let_def)

theorem sankey_init_columns_witness:
  "columns (subsets (Sankey_init ex_model (DataFrame [LInt 12, LStr ''B''] []) None True))
     = [''12'', ''B'']
   \<and> columns (subsets (Sankey_init ex_model ex_input None True)) = [''A'', ''B'']"
  using sankey_init_columns [of ex_model "[LInt 12, LStr ''B'']" "[]" None True
          "[(''a'', LStr ''A''), (''b'', LStr ''B''), (''c'', LStr ''A''), (''d'', LStr ''A'')]"]
  by (simp add: ex_init) (simp add: str_int_def)

theorem sankey_init_collision_counterexample:
  "LInt 1 \<noteq> LStr ''1'' \<and> str_label (LInt 1) = str_label (LStr ''1'')
   \<and> columns (subsets (Sankey_init ex_model ex_collide_frame None True)) = [''1'', ''1'']
   \<and> columns (subsets (Sankey_init ex_model ex_collide_series None True)) = [''1'', ''1'']
   \<and> rows (subsets (Sankey_init ex_model ex_collide_series None True))
       = [(''a'', [Fin 1, Fin 0]), (''b'', [Fin 0, Fin 1])]"
  by (simp add: Sankey_init_def get_dummies_def categories_def Let_def ex_collide_frame_def
        ex_collide_series_def str_int_def)

section \<open>The self path\<close>













section \<open>The range of a call\<close>

lemma hop_path_reversed: "t1 < t0 \<Longrightarrow> hop_path m t0 t1 = []"
proof -
  assume "t1 < t0"
  then have "filter (\<lambda>t. t0 \<le> t \<and> t \<le> t1) (timepoints m) = []"
    by (auto simp: filter_empty_conv)
  then show ?thesis by (simp add: hop_path_def window_def)
qed

lemma window_simps:
  "window [] = []" "window [x] = []" "window (x # y # zs) = (x, y) # window (y # zs)"
  by (simp_all add: window_def)

lemma filter_key_length:
  "distinct (map fst rs) \<Longrightarrow> l \<in> set (map fst rs) \<Longrightarrow> length (filter (\<lambda>r. fst r = l) rs) = 1"
proof (induction rs)
  case Nil then show ?case by simp
next
  case (Cons a rs)
  show ?case
  proof (cases "fst a = l")
    case True
    have "fst a \<notin> fst ` set rs" using Cons.prems(1) by simp
    then have "\<forall>r \<in> set rs. fst r \<noteq> l" using True by blast
    then have "filter (\<lambda>r. fst r = l) rs = []"
      by (simp add: filter_empty_conv)
    then show ?thesis using True by simp
  next
    case False
    then show ?thesis using Cons by auto
  qed
qed

lemma length_concat_ones:
  "(\<And>x. x \<in> set xs \<Longrightarrow> length (f x) = 1) \<Longrightarrow> length (concat (map f xs)) = length xs"
  by (induction xs) auto

lemma loc_ok:
  assumes "distinct (map fst (rows df))" "set ix \<subseteq> set (map fst (rows df))"
  shows "\<exists>rs. loc df ix = Inr rs \<and> length rs = length ix \<and> set rs \<subseteq> set (rows df)"
proof -
  have "length (concat (map (\<lambda>l. filter (\<lambda>r. fst r = l) (rows df)) ix)) = length ix"
  proof (rule length_concat_ones)
    fix x assume "x \<in> set ix"
    then have "x \<in> set (map fst (rows df))" using assms(2) by blast
    then show "length (filter (\<lambda>r. fst r = x) (rows df)) = 1"
      by (rule filter_key_length[OF assms(1)])
  qed
  moreover have "set (concat (map (\<lambda>l. filter (\<lambda>r. fst r = l) (rows df)) ix)) \<subseteq> set (rows df)"
    by auto
  ultimately show ?thesis using assms(2) by (simp add: loc_def)
qed

lemma renormalize_shape:
  "length (renormalize rs) = length rs"
  "(\<forall>row \<in> set rs. length (snd row) = g) \<Longrightarrow> \<forall>r \<in> set (map snd (renormalize rs)). length r = g"
  by (auto simp: renormalize_def)

lemma rect_mat_add:
  assumes "rect v g m" "rect v g n"
  shows "rect v g (mat_add m n)"
proof -
  have "\<forall>r \<in> set (map2 (map2 fadd) m n). length r = g"
  proof
    fix r assume "r \<in> set (map2 (map2 fadd) m n)"
    then obtain a b where ab: "(a, b) \<in> set (zip m n)" "r = map2 fadd a b" by auto
    then have "a \<in> set m" "b \<in> set n" by (auto dest: set_zip_leftD set_zip_rightD)
    then show "length r = g" using assms ab(2) by (simp add: rect_def)
  qed
  then show ?thesis using assms by (simp add: rect_def mat_add_def)
qed

lemma rect_foldl_mat_add:
  "rect v g acc \<Longrightarrow> \<forall>x \<in> set xs. rect v g x \<Longrightarrow> rect v g (foldl mat_add acc xs)"
  by (induction xs arbitrary: acc) (auto simp: rect_mat_add)

lemma rect_outer: "rect (length a) (length b) (outer a b)"
  by (auto simp: rect_def outer_def)

lemma matmul_T_ok:
  assumes "length a = length b" "\<forall>r \<in> set a. length r = v" "\<forall>r \<in> set b. length r = g"
  shows "\<exists>m. matmul_T v g a b = Inr m \<and> rect v g m"
proof -
  have "\<forall>x \<in> set (map2 outer a b). rect v g x"
  proof
    fix x assume "x \<in> set (map2 outer a b)"
    then obtain ra rb where "(ra, rb) \<in> set (zip a b)" "x = outer ra rb" by auto
    then have "ra \<in> set a" "rb \<in> set b" "x = outer ra rb"
      by (auto dest: set_zip_leftD set_zip_rightD)
    then show "rect v g x" using assms rect_outer[of ra rb] by auto
  qed
  moreover have "rect v g (replicate v (replicate g (Fin 0)))"
    by (simp add: rect_def)
  ultimately have "rect v g (foldl mat_add (replicate v (replicate g (Fin 0))) (map2 outer a b))"
    by (rule rect_foldl_mat_add[rotated])
  then show ?thesis using assms(1) by (simp add: matmul_T_def)
qed

lemma matmul_T_mismatch: "length a \<noteq> length b \<Longrightarrow> matmul_T v g a b = Inl ValueError"
  by (simp add: matmul_T_def)

lemma format_flow_ok:
  assumes "rect (length cols) (length cols) m" "''source'' \<notin> set cols" "name \<notin> set cols"
    "name \<noteq> ''source''"
  shows "format_flow m cols cols name = Inr (melt cols cols m)"
  using assms by (auto simp: format_flow_def rect_def)

lemma hops_chain:
  assumes "xs \<noteq> []" "state_over m g (hd xs) so" "state_over m g (hd xs) si"
    and "\<forall>st a b ax. (a, b) \<in> set (window xs) \<longrightarrow> state_over m g a st \<longrightarrow>
           (\<exists>st'. pf st a b True ax = Inr st' \<and> state_over m g b st')"
  shows "\<exists>so' si'. hops pf (window xs) (so, si) = Inr (so', si')
           \<and> state_over m g (last xs) so' \<and> state_over m g (last xs) si'"
  using assms
proof (induction xs arbitrary: so si)
  case Nil
  then show ?case by simp
next
  case (Cons x xs)
  show ?case
  proof (cases xs)
    case Nil
    then show ?thesis using Cons.prems by (simp add: window_simps)
  next
    case (Cons y zs)
    have w: "window (x # xs) = (x, y) # window xs"
      using Cons by (simp add: window_simps)
    have pf_ok: "\<forall>st a b ax. (a, b) \<in> set (window xs) \<longrightarrow> state_over m g a st \<longrightarrow>
           (\<exists>st'. pf st a b True ax = Inr st' \<and> state_over m g b st')"
      using Cons.prems(4) w by auto
    from Cons.prems(2,4) w obtain so1 where so1: "pf so x y True 1 = Inr so1" "state_over m g y so1"
      by (metis list.sel(1) list.set_intros(1))
    from Cons.prems(3,4) w obtain si1 where si1: "pf si x y True 0 = Inr si1" "state_over m g y si1"
      by (metis list.sel(1) list.set_intros(1))
    have "xs \<noteq> []" "hd xs = y" using Cons by simp_all
    from Cons.IH[OF this(1) so1(2)[folded this(2)] si1(2)[folded this(2)] pf_ok]
    obtain so' si' where "hops pf (window xs) (so1, si1) = Inr (so', si')"
      "state_over m g (last xs) so'" "state_over m g (last xs) si'" by blast
    then show ?thesis
      using so1 si1 \<open>xs \<noteq> []\<close> by (simp add: w bindE_def)
  qed
qed

lemma sorted_filter_ends:
  assumes "sorted (xs :: real list)" "t0 \<le> t1" "t0 \<in> set xs" "t1 \<in> set xs"
  shows "filter (\<lambda>t. t0 \<le> t \<and> t \<le> t1) xs \<noteq> []
       \<and> hd (filter (\<lambda>t. t0 \<le> t \<and> t \<le> t1) xs) = t0
       \<and> last (filter (\<lambda>t. t0 \<le> t \<and> t \<le> t1) xs) = t1"
proof -
  define F where "F = filter (\<lambda>t. t0 \<le> t \<and> t \<le> t1) xs"
  have s: "sorted F" unfolding F_def using assms(1) by (rule sorted_wrt_filter)
  have m0: "t0 \<in> set F" and m1: "t1 \<in> set F" using assms by (auto simp: F_def)
  have bnd: "\<forall>x \<in> set F. t0 \<le> x \<and> x \<le> t1" by (auto simp: F_def)
  have ne: "F \<noteq> []" using m0 by auto
  have "hd F \<in> set F" "last F \<in> set F" using ne by simp_all
  then have b: "t0 \<le> hd F" "last F \<le> t1" using bnd by auto
  obtain x ys where Fc: "F = x # ys" using ne by (cases F) auto
  have "hd F \<le> t0" using s m0 unfolding Fc by auto
  then have h: "hd F = t0" using b by simp
  obtain i where i: "i < length F" "F ! i = t1" using m1 by (auto simp: in_set_conv_nth)
  have "F ! i \<le> F ! (length F - 1)"
    using s i(1) by (intro sorted_nth_mono) auto
  then have "t1 \<le> last F" using i ne by (simp add: last_conv_nth)
  then have l: "last F = t1" using b by simp
  show ?thesis using ne h l unfolding F_def by simp
qed

lemma flows_frame_from_states:
  assumes l0: "loc (subsets s) (obs_at (ot_model s) t0) = Inr s0"
    and l1: "loc (subsets s) (obs_at (ot_model s) t1) = Inr s1"
    and h: "hops (push_forward (ot_model s)) (hop_path (ot_model s) t0 t1)
              (\<lparr>X = map snd (renormalize s0), obs_names = map fst (renormalize s0),
                 var_names = columns (subsets s)\<rparr>,
               \<lparr>X = map snd (renormalize s0), obs_names = map fst (renormalize s0),
                 var_names = columns (subsets s)\<rparr>) = Inr (so, si)"
    and so: "\<forall>r \<in> set (X so). length r = length (columns (subsets s))"
            "length (var_names so) = length (columns (subsets s))"
    and si: "\<forall>r \<in> set (X si). length r = length (columns (subsets s))"
            "length (var_names si) = length (columns (subsets s))"
    and s1: "\<forall>row \<in> set s1. length (snd row) = length (columns (subsets s))"
    and labels: "''source'' \<notin> set (columns (subsets s))" "''outflow'' \<notin> set (columns (subsets s))"
            "''inflow'' \<notin> set (columns (subsets s))"
    and ne: "columns (subsets s) \<noteq> []"
  shows "(length (X so) = length s1 \<and> length (X si) = length s1
            \<longrightarrow> (\<exists>df. flows_frame s t0 t1 = Inr df))
       \<and> (length (X so) \<noteq> length s1 \<or> length (X si) \<noteq> length s1
            \<longrightarrow> flows_frame s t0 t1 = Inl ValueError)"
proof -
  let ?cols = "columns (subsets s)"
  let ?g = "length ?cols"
  let ?b = "map snd (renormalize s1)"
  let ?mo = "matmul_T (length (var_names so)) ?g (X so) ?b"
  let ?mi = "matmul_T (length (var_names si)) ?g (X si) ?b"
  have eq1: "flows_frame s t0 t1 =
      bindE ?mo (\<lambda>out_m. bindE ?mi (\<lambda>in_m.
        bindE (format_flow (mat_normalize out_m) ?cols ?cols ''outflow'') (\<lambda>out_df.
        bindE (format_flow (mat_normalize in_m) ?cols ?cols ''inflow'') (\<lambda>in_df.
        Inr (merge out_df in_df)))))"
    using l0 l1 h ne by (simp add: flows_frame_def AnnData_def bindE_def Let_def)
  have lb: "length ?b = length s1" by (simp add: renormalize_shape)
  have rb: "\<forall>r \<in> set ?b. length r = ?g" by (rule renormalize_shape(2)[OF s1])
  have ok: "length (X so) = length s1 \<and> length (X si) = length s1
            \<longrightarrow> (\<exists>df. flows_frame s t0 t1 = Inr df)"
  proof
    assume len: "length (X so) = length s1 \<and> length (X si) = length s1"
    from matmul_T_ok[of "X so" ?b "length (var_names so)" ?g] len lb so rb
    obtain mo where mo: "?mo = Inr mo" "rect ?g ?g mo" by auto
    from matmul_T_ok[of "X si" ?b "length (var_names si)" ?g] len lb si rb
    obtain mi where mi: "?mi = Inr mi" "rect ?g ?g mi" by auto
    have fo: "format_flow (mat_normalize mo) ?cols ?cols ''outflow''
                = Inr (melt ?cols ?cols (mat_normalize mo))"
      using mo(2) labels by (intro format_flow_ok) (simp_all add: rect_mat_normalize)
    have fi: "format_flow (mat_normalize mi) ?cols ?cols ''inflow''
                = Inr (melt ?cols ?cols (mat_normalize mi))"
      using mi(2) labels by (intro format_flow_ok) (simp_all add: rect_mat_normalize)
    show "\<exists>df. flows_frame s t0 t1 = Inr df"
      unfolding eq1 by (simp add: mo(1) mi(1) fo fi bindE_def)
  qed
  have bad: "length (X so) \<noteq> length s1 \<or> length (X si) \<noteq> length s1
            \<longrightarrow> flows_frame s t0 t1 = Inl ValueError"
  proof
    assume len: "length (X so) \<noteq> length s1 \<or> length (X si) \<noteq> length s1"
    show "flows_frame s t0 t1 = Inl ValueError"
    proof (cases "length (X so) = length s1")
      case False
      then have "?mo = Inl ValueError" using lb by (simp add: matmul_T_mismatch)
      then show ?thesis unfolding eq1 by (simp add: bindE_def)
    next
      case True
      from matmul_T_ok[of "X so" ?b "length (var_names so)" ?g] True lb so rb
      obtain mo where mo: "?mo = Inr mo" by auto
      have "?mi = Inl ValueError" using len True lb by (simp add: matmul_T_mismatch)
      then show ?thesis unfolding eq1 by (simp add: mo bindE_def)
    qed
  qed
  show ?thesis using ok bad by simp
qed

lemma calculate_flows_of_frame:
  assumes "cache_flow_dfs s \<longrightarrow> flow_dfs s \<noteq> None"
  shows "flows_frame s t0 t1 = Inr df \<Longrightarrow> \<exists>s'. calculate_flows s t0 t1 = (Inr df, s')"
    and "flows_frame s t0 t1 = Inl e \<Longrightarrow> calculate_flows s t0 t1 = (Inl e, s)"
  using assms by (auto simp: calculate_flows_def split: option.splits)

lemma calculate_flows_well_formed:
  assumes "distinct (map fst (rows (subsets s)))"
    and "\<forall>row \<in> set (rows (subsets s)). length (snd row) = length (columns (subsets s))"
    and "set (obs_at (ot_model s) t0) \<subseteq> set (map fst (rows (subsets s)))"
    and "set (obs_at (ot_model s) t1) \<subseteq> set (map fst (rows (subsets s)))"
    and "''source'' \<notin> set (columns (subsets s))"
    and "''outflow'' \<notin> set (columns (subsets s))"
    and "''inflow'' \<notin> set (columns (subsets s))"
    and "cache_flow_dfs s \<longrightarrow> flow_dfs s \<noteq> None"
    and "sorted (timepoints (ot_model s))"
    and "\<forall>st a b ax. (a, b) \<in> set (hop_path (ot_model s) t0 t1)
           \<longrightarrow> state_over (ot_model s) (length (columns (subsets s))) a st
           \<longrightarrow> (\<exists>st'. push_forward (ot_model s) st a b True ax = Inr st'
                      \<and> state_over (ot_model s) (length (columns (subsets s))) b st')"
    and "columns (subsets s) \<noteq> []"
  shows "(t1 < t0 \<longrightarrow>
            hop_path (ot_model s) t0 t1 = []
          \<and> (length (obs_at (ot_model s) t0) = length (obs_at (ot_model s) t1)
               \<longrightarrow> (\<exists>df s'. calculate_flows s t0 t1 = (Inr df, s')))
          \<and> (length (obs_at (ot_model s) t0) \<noteq> length (obs_at (ot_model s) t1)
               \<longrightarrow> calculate_flows s t0 t1 = (Inl ValueError, s)))
       \<and> (t0 \<le> t1 \<and> t0 \<in> set (timepoints (ot_model s)) \<and> t1 \<in> set (timepoints (ot_model s))
            \<longrightarrow> (\<exists>df s'. calculate_flows s t0 t1 = (Inr df, s')))"
proof -
  let ?m = "ot_model s"
  let ?cols = "columns (subsets s)"
  let ?g = "length ?cols"
  from loc_ok[OF assms(1,3)] obtain s0 where
    l0: "loc (subsets s) (obs_at ?m t0) = Inr s0" and n0: "length s0 = length (obs_at ?m t0)"
    and r0: "set s0 \<subseteq> set (rows (subsets s))" by blast
  from loc_ok[OF assms(1,4)] obtain s1 where
    l1: "loc (subsets s) (obs_at ?m t1) = Inr s1" and n1: "length s1 = length (obs_at ?m t1)"
    and r1: "set s1 \<subseteq> set (rows (subsets s))" by blast
  let ?a0 = "\<lparr>X = map snd (renormalize s0), obs_names = map fst (renormalize s0),
               var_names = ?cols\<rparr>"
  have w0: "\<forall>row \<in> set s0. length (snd row) = ?g" using r0 assms(2) by blast
  have w1: "\<forall>row \<in> set s1. length (snd row) = ?g" using r1 assms(2) by blast
  have a0: "state_over ?m ?g t0 ?a0"
    using renormalize_shape(2)[OF w0] by (simp add: state_over_def renormalize_shape(1) n0)
  have rev: "t1 < t0 \<longrightarrow>
            hop_path ?m t0 t1 = []
          \<and> (length (obs_at ?m t0) = length (obs_at ?m t1)
               \<longrightarrow> (\<exists>df s'. calculate_flows s t0 t1 = (Inr df, s')))
          \<and> (length (obs_at ?m t0) \<noteq> length (obs_at ?m t1)
               \<longrightarrow> calculate_flows s t0 t1 = (Inl ValueError, s))"
  proof
    assume lt: "t1 < t0"
    have hp: "hop_path ?m t0 t1 = []" by (rule hop_path_reversed[OF lt])
    have h: "hops (push_forward ?m) (hop_path ?m t0 t1) (?a0, ?a0) = Inr (?a0, ?a0)"
      by (simp add: hp)
    have lx: "length (X ?a0) = length (obs_at ?m t0)" using a0 by (simp add: state_over_def)
    from flows_frame_from_states[OF l0 l1 h _ _ _ _ w1 assms(5,6,7,11)] a0
    have ff: "(length (X ?a0) = length s1 \<longrightarrow> (\<exists>df. flows_frame s t0 t1 = Inr df))
            \<and> (length (X ?a0) \<noteq> length s1 \<longrightarrow> flows_frame s t0 t1 = Inl ValueError)"
      by (simp add: state_over_def)
    show "hop_path ?m t0 t1 = []
          \<and> (length (obs_at ?m t0) = length (obs_at ?m t1)
               \<longrightarrow> (\<exists>df s'. calculate_flows s t0 t1 = (Inr df, s')))
          \<and> (length (obs_at ?m t0) \<noteq> length (obs_at ?m t1)
               \<longrightarrow> calculate_flows s t0 t1 = (Inl ValueError, s))"
      using hp ff lx n1 calculate_flows_of_frame[OF assms(8), of t0 t1] by metis
  qed
  have fwd: "t0 \<le> t1 \<and> t0 \<in> set (timepoints ?m) \<and> t1 \<in> set (timepoints ?m)
            \<longrightarrow> (\<exists>df s'. calculate_flows s t0 t1 = (Inr df, s'))"
  proof
    assume pre: "t0 \<le> t1 \<and> t0 \<in> set (timepoints ?m) \<and> t1 \<in> set (timepoints ?m)"
    define F where "F = filter (\<lambda>t. t0 \<le> t \<and> t \<le> t1) (timepoints ?m)"
    have F: "F \<noteq> []" "hd F = t0" "last F = t1"
      using sorted_filter_ends[OF assms(9), of t0 t1] pre by (simp_all add: F_def)
    have hpF: "hop_path ?m t0 t1 = window F" by (simp add: hop_path_def F_def)
    from hops_chain[of F ?m ?g ?a0 ?a0 "push_forward ?m"] F a0 assms(10) hpF
    obtain so si where h: "hops (push_forward ?m) (hop_path ?m t0 t1) (?a0, ?a0) = Inr (so, si)"
      and so: "state_over ?m ?g t1 so" and si: "state_over ?m ?g t1 si"
      by auto
    from flows_frame_from_states[OF l0 l1 h _ _ _ _ w1 assms(5,6,7,11)] so si n1
    obtain df where "flows_frame s t0 t1 = Inr df"
      by (auto simp: state_over_def)
    then show "\<exists>df s'. calculate_flows s t0 t1 = (Inr df, s')"
      using calculate_flows_of_frame(1)[OF assms(8)] by blast
  qed
  show ?thesis using rev fwd by simp
qed

text \<open>
  C4, as the code has it. \<open>calculate_flows\<close> checks no range. Take a well-formed
  aggregator: a subsets frame with at least one group column, unique index labels and
  one cell per column, which covers the observations of \<open>t0\<close> and \<open>t1\<close>; no group
  labelled \<open>source\<close>, \<open>outflow\<close> or \<open>inflow\<close>; sorted time points; and a \<open>push_forward\<close>
  that on every hop of the path maps a state over the observations of its first time
  point to one over those of its second. When \<open>t0 > t1\<close> the hop path is empty and the
  call returns a table if the two time points have equally many observations, and
  raises \<open>ValueError\<close> (from the matrix product) if not. Under the precondition
  (\<open>t0 \<le> t1\<close>, both among the time points) the call returns a table.
\<close>

theorem range_not_checked:
  assumes "distinct (map fst (rows (subsets s)))"
    and "\<forall>row \<in> set (rows (subsets s)). length (snd row) = length (columns (subsets s))"
    and "set (obs_at (ot_model s) t0) \<subseteq> set (map fst (rows (subsets s)))"
    and "set (obs_at (ot_model s) t1) \<subseteq> set (map fst (rows (subsets s)))"
    and "''source'' \<notin> set (columns (subsets s))"
    and "''outflow'' \<notin> set (columns (subsets s))"
    and "''inflow'' \<notin> set (columns (subsets s))"
    and "cache_flow_dfs s \<longrightarrow> flow_dfs s \<noteq> None"
    and "sorted (timepoints (ot_model s))"
    and "\<forall>st a b ax. (a, b) \<in> set (hop_path (ot_model s) t0 t1)
           \<longrightarrow> state_over (ot_model s) (length (columns (subsets s))) a st
           \<longrightarrow> (\<exists>st'. push_forward (ot_model s) st a b True ax = Inr st'
                      \<and> state_over (ot_model s) (length (columns (subsets s))) b st')"
    and "columns (subsets s) \<noteq> []"
  shows "(t1 < t0 \<longrightarrow>
            hop_path (ot_model s) t0 t1 = []
          \<and> (length (obs_at (ot_model s) t0) = length (obs_at (ot_model s) t1)
               \<longrightarrow> (\<exists>df s'. calculate_flows s t0 t1 = (Inr df, s')))
          \<and> (length (obs_at (ot_model s) t0) \<noteq> length (obs_at (ot_model s) t1)
               \<longrightarrow> calculate_flows s t0 t1 = (Inl ValueError, s)))
       \<and> (t0 \<le> t1 \<and> t0 \<in> set (timepoints (ot_model s)) \<and> t1 \<in> set (timepoints (ot_model s))
            \<longrightarrow> (\<exists>df s'. calculate_flows s t0 t1 = (Inr df, s')))"
  using assms by (rule calculate_flows_well_formed)

lemma ex_rev_frame: "flows_frame ex_sankey 1 0 = Inr ex_rev_table"
  unfolding ex_sankey_eq
  by (auto simp add: ex_model_def pf_keep_def ex_rev_table_def eval_defs)

lemma ex_rev_calc:
  "calculate_flows ex_sankey 1 0
     = (Inr ex_rev_table, ex_sankey\<lparr>flow_dfs := Some [((1, 0), ex_rev_table)]\<rparr>)"
  by (simp add: calculate_flows_def ex_rev_frame) (simp add: ex_sankey_eq)

lemma ex_wf:
  "distinct (map fst (rows (subsets ex_sankey)))"
  "\<forall>row \<in> set (rows (subsets ex_sankey)). length (snd row) = length (columns (subsets ex_sankey))"
  "''source'' \<notin> set (columns (subsets ex_sankey))"
  "''outflow'' \<notin> set (columns (subsets ex_sankey))"
  "''inflow'' \<notin> set (columns (subsets ex_sankey))"
  "cache_flow_dfs ex_sankey \<longrightarrow> flow_dfs ex_sankey \<noteq> None"
  "sorted (timepoints (ot_model ex_sankey))"
  by (simp_all add: ex_sankey_eq ex_model_def)

lemma ex_cover: "set (obs_at (ot_model ex_sankey) t) \<subseteq> set (map fst (rows (subsets ex_sankey)))"
  by (auto simp: ex_sankey_eq ex_model_def obs_at_def)

lemma ex_obs_count: "length (obs_at (ot_model ex_sankey) 0) = 2" "length (obs_at (ot_model ex_sankey) 1) = 2"
  by (simp_all add: ex_sankey_eq ex_model_def obs_at_def)

lemma ex_hop_path: "hop_path (ot_model ex_sankey) 0 1 = [(0, 1)]" "hop_path (ot_model ex_sankey) 1 0 = []"
  by (simp_all add: ex_sankey_eq ex_model_def hop_path_def window_def)

lemma ex_pf_ok:
  "\<forall>st a b ax. (a, b) \<in> set (hop_path (ot_model ex_sankey) 0 1)
           \<longrightarrow> state_over (ot_model ex_sankey) (length (columns (subsets ex_sankey))) a st
           \<longrightarrow> (\<exists>st'. push_forward (ot_model ex_sankey) st a b True ax = Inr st'
                      \<and> state_over (ot_model ex_sankey) (length (columns (subsets ex_sankey))) b st')"
proof -
  have pk: "push_forward (ot_model ex_sankey) = pf_keep" by (simp add: ex_sankey_eq ex_model_def)
  show ?thesis
    by (simp add: ex_hop_path pk pf_keep_def state_over_def ex_obs_count)
qed

lemma ex_pf_ok_rev:
  "\<forall>st a b ax. (a, b) \<in> set (hop_path (ot_model ex_sankey) 1 0)
           \<longrightarrow> state_over (ot_model ex_sankey) (length (columns (subsets ex_sankey))) a st
           \<longrightarrow> (\<exists>st'. push_forward (ot_model ex_sankey) st a b True ax = Inr st'
                      \<and> state_over (ot_model ex_sankey) (length (columns (subsets ex_sankey))) b st')"
  by (simp add: ex_hop_path)

lemma ex_uneven_fields:
  "subsets ex_uneven_sankey = subsets ex_sankey"
  "cache_flow_dfs ex_uneven_sankey = cache_flow_dfs ex_sankey"
  "flow_dfs ex_uneven_sankey = flow_dfs ex_sankey"
  "ot_model ex_uneven_sankey = \<lparr>meta = [(''a'', 0), (''b'', 0), (''c'', 1)],
                                timepoints = [0, 1], push_forward = pf_keep\<rparr>"
  by (simp_all add: ex_uneven_sankey_def)

lemma ex_uneven_cover:
  "set (obs_at (ot_model ex_uneven_sankey) t) \<subseteq> set (map fst (rows (subsets ex_uneven_sankey)))"
  by (auto simp: ex_uneven_fields obs_at_def) (auto simp: ex_sankey_eq)

lemma ex_uneven_obs_count:
  "length (obs_at (ot_model ex_uneven_sankey) 0) = 2" "length (obs_at (ot_model ex_uneven_sankey) 1) = 1"
  by (simp_all add: ex_uneven_fields obs_at_def)

lemma ex_uneven_hop_path: "hop_path (ot_model ex_uneven_sankey) 1 0 = []"
  by (simp add: ex_uneven_fields hop_path_def window_def)

theorem range_not_checked_witness:
  "(0::real) < 1
   \<and> hop_path (ot_model ex_sankey) 1 0 = []
   \<and> length (obs_at (ot_model ex_sankey) 1) = length (obs_at (ot_model ex_sankey) 0)
   \<and> (\<exists>df s'. calculate_flows ex_sankey 1 0 = (Inr df, s'))
   \<and> length (obs_at (ot_model ex_uneven_sankey) 1) \<noteq> length (obs_at (ot_model ex_uneven_sankey) 0)
   \<and> calculate_flows ex_uneven_sankey 1 0 = (Inl ValueError, ex_uneven_sankey)
   \<and> (0::real) \<le> 1 \<and> 0 \<in> set (timepoints (ot_model ex_sankey))
   \<and> 1 \<in> set (timepoints (ot_model ex_sankey))
   \<and> (\<exists>df s'. calculate_flows ex_sankey 0 1 = (Inr df, s'))"
proof -
  have tp: "0 \<in> set (timepoints (ot_model ex_sankey))" "1 \<in> set (timepoints (ot_model ex_sankey))"
    by (simp_all add: ex_sankey_eq ex_model_def)
  have u_pf: "\<forall>st a b ax. (a, b) \<in> set (hop_path (ot_model ex_uneven_sankey) 1 0)
           \<longrightarrow> state_over (ot_model ex_uneven_sankey) (length (columns (subsets ex_uneven_sankey))) a st
           \<longrightarrow> (\<exists>st'. push_forward (ot_model ex_uneven_sankey) st a b True ax = Inr st'
                      \<and> state_over (ot_model ex_uneven_sankey) (length (columns (subsets ex_uneven_sankey))) b st')"
    by (simp add: ex_uneven_hop_path)
  have u_sorted: "sorted (timepoints (ot_model ex_uneven_sankey))"
    by (simp add: ex_uneven_fields)
  have ne: "columns (subsets ex_sankey) \<noteq> []" by (simp add: ex_sankey_eq)
  note r1 = range_not_checked [of ex_sankey 1 0,
              OF ex_wf(1,2) ex_cover ex_cover ex_wf(3-7) ex_pf_ok_rev ne]
  note r2 = range_not_checked [of ex_uneven_sankey 1 0,
              OF ex_wf(1,2)[folded ex_uneven_fields(1)] ex_uneven_cover ex_uneven_cover
                 ex_wf(3-5)[folded ex_uneven_fields(1)]
                 ex_wf(6)[folded ex_uneven_fields(2,3)] u_sorted u_pf
                 ne[folded ex_uneven_fields(1)]]
  note r3 = range_not_checked [of ex_sankey 0 1,
              OF ex_wf(1,2) ex_cover ex_cover ex_wf(3-7) ex_pf_ok ne]
  show ?thesis
    using r1 r2 r3 tp by (simp add: ex_obs_count ex_uneven_obs_count)
qed

theorem range_not_checked_counterexample:
  "(0::real) < 1
   \<and> calculate_flows ex_sankey 1 0
       = (Inr ex_rev_table, ex_sankey\<lparr>flow_dfs := Some [((1, 0), ex_rev_table)]\<rparr>)"
  by (simp add: ex_rev_calc)

section \<open>Zero mass\<close>

lemma renormalize_zero_total:
  assumes "values_sum rs = Fin 0"
  shows "\<forall>row \<in> set (renormalize rs). \<forall>v \<in> set (snd row). \<not> is_fin v"
proof -
  have "\<And>v. \<not> is_fin (fdiv v (Fin 0))"
  proof -
    fix v show "\<not> is_fin (fdiv v (Fin 0))" by (cases v) auto
  qed
  then show ?thesis
    using assms by (auto simp: renormalize_def)
qed

lemma ex_zero_loc:
  "loc (subsets ex_zero_sankey) (obs_at (ot_model ex_zero_sankey) 0) = Inr [(''a'', [Fin 0, Fin 0])]"
  unfolding ex_zero_sankey_eq by (simp add: loc_def obs_at_def ex_zero_model_def)

lemma ex_zero_total: "values_sum [(''a'', [Fin 0, Fin 0])] = Fin 0"
  by (simp add: values_sum_def np_sum_def)

lemma ex_zero_wf:
  "distinct (map fst (rows (subsets ex_zero_sankey)))"
  "\<forall>row \<in> set (rows (subsets ex_zero_sankey)). length (snd row) = length (columns (subsets ex_zero_sankey))"
  "''source'' \<notin> set (columns (subsets ex_zero_sankey))"
  "''outflow'' \<notin> set (columns (subsets ex_zero_sankey))"
  "''inflow'' \<notin> set (columns (subsets ex_zero_sankey))"
  "cache_flow_dfs ex_zero_sankey \<longrightarrow> flow_dfs ex_zero_sankey \<noteq> None"
  "sorted (timepoints (ot_model ex_zero_sankey))"
  "columns (subsets ex_zero_sankey) \<noteq> []"
  "0 \<in> set (timepoints (ot_model ex_zero_sankey))"
  "1 \<in> set (timepoints (ot_model ex_zero_sankey))"
  by (simp_all add: ex_zero_sankey_eq ex_zero_model_def)

lemma ex_zero_cover:
  "set (obs_at (ot_model ex_zero_sankey) t) \<subseteq> set (map fst (rows (subsets ex_zero_sankey)))"
  by (auto simp: ex_zero_sankey_eq ex_zero_model_def obs_at_def)

lemma ex_zero_pf_ok:
  "\<forall>st a b ax. (a, b) \<in> set (hop_path (ot_model ex_zero_sankey) 0 1)
           \<longrightarrow> state_over (ot_model ex_zero_sankey) (length (columns (subsets ex_zero_sankey))) a st
           \<longrightarrow> (\<exists>st'. push_forward (ot_model ex_zero_sankey) st a b True ax = Inr st'
                      \<and> state_over (ot_model ex_zero_sankey) (length (columns (subsets ex_zero_sankey))) b st')"
proof -
  have pk: "push_forward (ot_model ex_zero_sankey) = pf_keep"
    by (simp add: ex_zero_sankey_eq ex_zero_model_def)
  have hp: "hop_path (ot_model ex_zero_sankey) 0 1 = [(0, 1)]"
    by (simp add: ex_zero_sankey_eq ex_zero_model_def hop_path_def window_def)
  have n: "length (obs_at (ot_model ex_zero_sankey) 0) = 1" "length (obs_at (ot_model ex_zero_sankey) 1) = 1"
    by (simp_all add: ex_zero_sankey_eq ex_zero_model_def obs_at_def)
  show ?thesis
    by (simp add: hp pk pf_keep_def state_over_def n)
qed

lemma ex_zero_loc1:
  "loc (subsets ex_zero_sankey) (obs_at (ot_model ex_zero_sankey) 1) = Inr [(''c'', [Fin 1, Fin 0])]"
  unfolding ex_zero_sankey_eq by (simp add: loc_def obs_at_def ex_zero_model_def)

text \<open>
  C5, as the code has it. Take a well-formed aggregator as for the range of a call and a
  span \<open>t0 \<le> t1\<close> of two time points of the model, where the subset of \<open>t0\<close> or of \<open>t1\<close> has
  total mass zero. The call raises nothing: it returns a table, and with the cache on
  that table is stored under \<open>(t0, t1)\<close>. The division by the zero total is carried out:
  every cell of the renormalized subset is NaN or infinite.
\<close>

theorem zero_mass_not_rejected:
  assumes "distinct (map fst (rows (subsets s)))"
    and "\<forall>row \<in> set (rows (subsets s)). length (snd row) = length (columns (subsets s))"
    and "set (obs_at (ot_model s) t0) \<subseteq> set (map fst (rows (subsets s)))"
    and "set (obs_at (ot_model s) t1) \<subseteq> set (map fst (rows (subsets s)))"
    and "''source'' \<notin> set (columns (subsets s))"
    and "''outflow'' \<notin> set (columns (subsets s))"
    and "''inflow'' \<notin> set (columns (subsets s))"
    and "cache_flow_dfs s \<longrightarrow> flow_dfs s \<noteq> None"
    and "sorted (timepoints (ot_model s))"
    and "\<forall>st a b ax. (a, b) \<in> set (hop_path (ot_model s) t0 t1)
           \<longrightarrow> state_over (ot_model s) (length (columns (subsets s))) a st
           \<longrightarrow> (\<exists>st'. push_forward (ot_model s) st a b True ax = Inr st'
                      \<and> state_over (ot_model s) (length (columns (subsets s))) b st')"
    and "columns (subsets s) \<noteq> []"
    and "t0 \<le> t1" and "t0 \<in> set (timepoints (ot_model s))"
    and "t1 \<in> set (timepoints (ot_model s))"
    and "loc (subsets s) (obs_at (ot_model s) t0) = Inr s0"
    and "loc (subsets s) (obs_at (ot_model s) t1) = Inr s1"
    and "values_sum s0 = Fin 0 \<or> values_sum s1 = Fin 0"
  shows "(\<exists>df s'. calculate_flows s t0 t1 = (Inr df, s')
            \<and> (cache_flow_dfs s \<longrightarrow>
                 (\<exists>c. flow_dfs s' = Some c \<and> map_of c (t0, t1) = Some df)))
       \<and> ((values_sum s0 = Fin 0
              \<and> (\<forall>row \<in> set (renormalize s0). \<forall>v \<in> set (snd row). \<not> is_fin v))
            \<or> (values_sum s1 = Fin 0
              \<and> (\<forall>row \<in> set (renormalize s1). \<forall>v \<in> set (snd row). \<not> is_fin v)))"
proof -
  from calculate_flows_well_formed[OF assms(1-11)] assms(12-14)
  obtain df s' where c: "calculate_flows s t0 t1 = (Inr df, s')" by blast
  have st: "cache_flow_dfs s \<longrightarrow> (\<exists>c. flow_dfs s' = Some c \<and> map_of c (t0, t1) = Some df)"
    using calculate_flows_cached[OF c] by (auto simp: update_conv')
  have z: "(values_sum s0 = Fin 0
              \<and> (\<forall>row \<in> set (renormalize s0). \<forall>v \<in> set (snd row). \<not> is_fin v))
            \<or> (values_sum s1 = Fin 0
              \<and> (\<forall>row \<in> set (renormalize s1). \<forall>v \<in> set (snd row). \<not> is_fin v))"
    using assms(17) renormalize_zero_total[of s0] renormalize_zero_total[of s1] by blast
  show ?thesis using c st z by blast
qed

theorem zero_mass_not_rejected_witness:
  "(0::real) \<le> 1
   \<and> loc (subsets ex_zero_sankey) (obs_at (ot_model ex_zero_sankey) 0) = Inr [(''a'', [Fin 0, Fin 0])]
   \<and> values_sum [(''a'', [Fin 0, Fin 0])] = Fin 0
   \<and> renormalize [(''a'', [Fin 0, Fin 0])] = [(''a'', [NaN, NaN])]
   \<and> values_sum [(''c'', [Fin 1, Fin 0])] = Fin 1
   \<and> calculate_flows ex_zero_sankey 0 1
       = (Inr ex_nan_table, ex_zero_sankey\<lparr>flow_dfs := Some [((0, 1), ex_nan_table)]\<rparr>)
   \<and> cache_flow_dfs ex_zero_sankey
   \<and> map_of [((0::real, 1::real), ex_nan_table)] (0, 1) = Some ex_nan_table"
proof -
  have z: "values_sum [(''a'', [Fin 0, Fin 0])] = Fin 0 \<or> values_sum [(''c'', [Fin 1, Fin 0])] = Fin 0"
    by (simp add: ex_zero_total)
  have le: "(0::real) \<le> 1" by simp
  note t = zero_mass_not_rejected [OF ex_zero_wf(1,2) ex_zero_cover ex_zero_cover ex_zero_wf(3-7)
             ex_zero_pf_ok ex_zero_wf(8) le ex_zero_wf(9,10) ex_zero_loc ex_zero_loc1 z]
  show ?thesis
    using t ex_zero_calc ex_zero_loc ex_zero_total
    by (simp add: renormalize_def values_sum_def np_sum_def) (simp add: ex_zero_sankey_eq)
qed

theorem zero_mass_counterexample:
  "loc (subsets ex_zero_sankey) (obs_at (ot_model ex_zero_sankey) 0) = Inr [(''a'', [Fin 0, Fin 0])]
   \<and> values_sum [(''a'', [Fin 0, Fin 0])] = Fin 0
   \<and> flow_dfs ex_zero_sankey = Some []
   \<and> calculate_flows ex_zero_sankey 0 1
       = (Inr ex_nan_table, ex_zero_sankey\<lparr>flow_dfs := Some [((0, 1), ex_nan_table)]\<rparr>)
   \<and> flow_dfs (ex_zero_sankey\<lparr>flow_dfs := Some [((0, 1), ex_nan_table)]\<rparr>)
       = Some [((0, 1), ex_nan_table)]"
  by (simp add: ex_zero_calc ex_zero_loc ex_zero_total) (simp add: ex_zero_sankey_eq)

section \<open>The expected entropy\<close>

lemma series_sum_Fin: "series_sum (map Fin xs) = Fin (sum_list xs)"
proof -
  have "filter (\<lambda>x. x \<noteq> NaN) (map Fin xs) = map Fin xs"
    by (induction xs) auto
  then show ?thesis by (simp add: series_sum_def np_sum_map_Fin)
qed

lemma foldl_entropy_terms:
  "foldl fadd (Fin a) (filter (\<lambda>x. x \<noteq> NaN) (map (\<lambda>p. if p = 0 then NaN else Fin (f p)) ps))
     = Fin (a + (\<Sum>p\<leftarrow>ps. if p = (0::real) then 0 else f p))"
  by (induction ps arbitrary: a) (auto simp: algebra_simps)

lemma series_sum_entropy_terms:
  "series_sum (map (\<lambda>p. if p = 0 then NaN else Fin (f p)) ps)
     = Fin (\<Sum>p\<leftarrow>ps. if p = (0::real) then 0 else f p)"
  using foldl_entropy_terms[of 0 f ps] by (simp add: series_sum_def np_sum_def)

lemma calculate_entropy_pos:
  assumes "\<forall>x \<in> set xs. 0 \<le> x" "0 < sum_list xs"
  shows "calculate_entropy (map Fin xs) = Fin (shannon (map (\<lambda>a. a / sum_list xs) xs))"
proof -
  let ?s = "sum_list xs"
  have 1: "map (\<lambda>v. fdiv v (Fin ?s)) (map Fin xs) = map (\<lambda>a. Fin (a / ?s)) xs"
    using assms(2) by simp
  have 2: "map (\<lambda>v. fmul v (flog v)) (map (\<lambda>a. Fin (a / ?s)) xs)
         = map (\<lambda>p. if p = 0 then NaN else Fin (p * ln p)) (map (\<lambda>a. a / ?s) xs)"
  proof -
    have "\<And>a. a \<in> set xs \<Longrightarrow> fmul (Fin (a / ?s)) (flog (Fin (a / ?s)))
            = (if a / ?s = 0 then NaN else Fin (a / ?s * ln (a / ?s)))"
    proof -
      fix a assume "a \<in> set xs"
      then have "0 \<le> a / ?s" using assms by simp
      then show "fmul (Fin (a / ?s)) (flog (Fin (a / ?s)))
            = (if a / ?s = 0 then NaN else Fin (a / ?s * ln (a / ?s)))"
        by (cases "a / ?s = 0") auto
    qed
    then show ?thesis by (simp add: comp_def)
  qed
  show ?thesis
    unfolding calculate_entropy_def Let_def series_sum_Fin 1 2 series_sum_entropy_terms
    by (simp add: shannon_def)
qed

lemma calculate_entropy_zero:
  assumes "\<forall>x \<in> set xs. x = (0::real)"
  shows "calculate_entropy (map Fin xs) = Fin 0"
proof -
  have s: "sum_list xs = 0" using assms by (induction xs) auto
  have 1: "map (\<lambda>v. fmul v (flog v)) (map (\<lambda>v. fdiv v (Fin 0)) (map Fin xs)) = map (\<lambda>a. NaN) xs"
    using assms by (simp add: comp_def)
  have 2: "filter (\<lambda>x. x \<noteq> NaN) (map (\<lambda>a. NaN) xs) = []"
    by (simp add: filter_empty_conv)
  show ?thesis
    unfolding calculate_entropy_def Let_def series_sum_Fin s 1
    by (simp add: series_sum_def 2 np_sum_def)
qed

lemma nonneg_fin_list:
  "\<forall>v \<in> set vs. is_fin v \<and> 0 \<le> the_fin v \<Longrightarrow>
     vs = map Fin (map the_fin vs) \<and> (\<forall>x \<in> set (map the_fin vs). 0 \<le> x)"
  by (induction vs) (auto simp: is_fin_conv)

lemma group_vals_fin:
  assumes "\<forall>r \<in> set df. is_fin (flow_col fv r) \<and> 0 \<le> the_fin (flow_col fv r)"
  shows "group_vals gv fv df k = map Fin (map the_fin (group_vals gv fv df k))
       \<and> (\<forall>x \<in> set (map the_fin (group_vals gv fv df k)). 0 \<le> x)"
proof (rule nonneg_fin_list)
  show "\<forall>v \<in> set (group_vals gv fv df k). is_fin v \<and> 0 \<le> the_fin v"
    using assms by (auto simp: group_vals_def)
qed

lemma group_mass_nonneg:
  assumes "\<forall>r \<in> set df. is_fin (flow_col fv r) \<and> 0 \<le> the_fin (flow_col fv r)"
  shows "0 \<le> group_mass gv fv df k"
  unfolding group_mass_def
  using conjunct2[OF group_vals_fin[OF assms, of gv k]] by (intro sum_list_nonneg) auto

lemma group_sum_mass:
  assumes "\<forall>r \<in> set df. is_fin (flow_col fv r) \<and> 0 \<le> the_fin (flow_col fv r)"
  shows "series_sum (group_vals gv fv df k) = Fin (group_mass gv fv df k)"
proof -
  have "series_sum (group_vals gv fv df k)
      = series_sum (map Fin (map the_fin (group_vals gv fv df k)))"
    by (rule arg_cong[where f = series_sum]) (rule conjunct1[OF group_vals_fin[OF assms]])
  then show ?thesis by (simp only: series_sum_Fin group_mass_def)
qed

lemma nonneg_sum_zero:
  "\<forall>x \<in> set xs. 0 \<le> x \<Longrightarrow> sum_list xs = 0 \<Longrightarrow> \<forall>x \<in> set xs. x = (0::real)"
proof (induction xs)
  case Nil then show ?case by simp
next
  case (Cons a xs)
  have a: "0 \<le> a" and r: "\<forall>x \<in> set xs. 0 \<le> x" using Cons.prems(1) by simp_all
  have "0 \<le> sum_list xs" by (rule sum_list_nonneg) (simp add: r)
  moreover have "a + sum_list xs = 0" using Cons.prems(2) by simp
  ultimately have z: "a = 0" "sum_list xs = 0" using a by linarith+
  from Cons.IH[OF r z(2)] z(1) show ?case by simp
qed

lemma group_entropy_value:
  assumes "\<forall>r \<in> set df. is_fin (flow_col fv r) \<and> 0 \<le> the_fin (flow_col fv r)"
  shows "calculate_entropy (group_vals gv fv df k)
       = Fin (if group_mass gv fv df k = 0 then 0
              else shannon (map (\<lambda>v. the_fin v / group_mass gv fv df k) (group_vals gv fv df k)))"
proof -
  let ?rv = "map the_fin (group_vals gv fv df k)"
  have v: "group_vals gv fv df k = map Fin ?rv"
    by (rule conjunct1[OF group_vals_fin[OF assms]])
  have nn: "\<forall>x \<in> set ?rv. 0 \<le> x"
    by (rule conjunct2[OF group_vals_fin[OF assms]])
  have e: "calculate_entropy (group_vals gv fv df k) = calculate_entropy (map Fin ?rv)"
    by (rule arg_cong[OF v])
  show ?thesis
  proof (cases "group_mass gv fv df k = 0")
    case True
    then have "sum_list ?rv = 0" by (simp only: group_mass_def)
    then have "\<forall>x \<in> set ?rv. x = 0"
      by (rule nonneg_sum_zero[OF nn])
    then have "calculate_entropy (map Fin ?rv) = Fin 0" by (rule calculate_entropy_zero)
    then show ?thesis using True by (simp add: e)
  next
    case False
    then have pos: "0 < sum_list ?rv"
      using group_mass_nonneg[OF assms, of gv k] by (simp add: group_mass_def)
    have "calculate_entropy (map Fin ?rv) = Fin (shannon (map (\<lambda>a. a / sum_list ?rv) ?rv))"
      by (rule calculate_entropy_pos[OF nn pos])
    then show ?thesis using False by (simp only: e group_mass_def if_False map_map comp_def)
  qed
qed

lemma replace_nan_term:
  assumes "m = 0 \<longrightarrow> e = 0" "T = 0 \<longrightarrow> m = 0"
  shows "replace_nan (fmul (fdiv (Fin m) (Fin T)) (Fin e)) = Fin (if m = 0 then 0 else m / T * e)"
  using assms by (auto simp: replace_nan_def)

text \<open>
  C3. For a flow table whose flows are finite and not negative, the expected entropy
  that the code computes is the one of the specification: a group of mass zero
  contributes zero, and the result is a finite number, never NaN. The entropy of a
  distribution is computed with \<open>0 ln 0 = 0\<close>: pandas leaves the NaN of \<open>0 * log 0\<close> out
  of the sum, so a distribution with zero entries has its finite entropy.
\<close>

theorem expected_entropy_zero_conventions:
  assumes "\<forall>r \<in> set df. is_fin (flow_col fv r) \<and> 0 \<le> the_fin (flow_col fv r)"
  shows "expected_flow_entropy df gv fv = Fin (spec_expected_entropy df gv fv)
       \<and> ((\<forall>x \<in> set xs. 0 \<le> x) \<and> 0 < sum_list xs \<longrightarrow>
            calculate_entropy (map Fin xs) = Fin (shannon (map (\<lambda>a. a / sum_list xs) xs)))"
proof -
  let ?keys = "group_keys gv df"
  let ?m = "group_mass gv fv df"
  let ?T = "\<Sum>k\<leftarrow>?keys. ?m k"
  let ?e = "\<lambda>k. if ?m k = 0 then 0
              else shannon (map (\<lambda>v. the_fin v / ?m k) (group_vals gv fv df k))"
  have sums: "group_sums gv fv df = map Fin (map ?m ?keys)"
    by (simp add: group_sums_def group_sum_mass[OF assms] comp_def)
  have sW: "series_sum (group_sums gv fv df) = Fin ?T"
    unfolding sums by (rule series_sum_Fin)
  have "group_weights gv fv df = map (\<lambda>w. fdiv w (Fin ?T)) (group_sums gv fv df)"
    by (simp only: group_weights_def Let_def sW)
  also have "\<dots> = map (\<lambda>k. fdiv (Fin (?m k)) (Fin ?T)) ?keys"
    by (simp only: sums map_map comp_def)
  finally have weights: "group_weights gv fv df = map (\<lambda>k. fdiv (Fin (?m k)) (Fin ?T)) ?keys" .
  have ents: "group_entropies gv fv df = map (\<lambda>k. Fin (?e k)) ?keys"
    by (simp add: group_entropies_def group_entropy_value[OF assms])
  have nn: "\<forall>x \<in> set (map ?m ?keys). 0 \<le> x"
    using group_mass_nonneg[OF assms] by simp
  have Tz: "\<And>k. k \<in> set ?keys \<Longrightarrow> ?T = 0 \<longrightarrow> ?m k = 0"
  proof
    fix k assume k: "k \<in> set ?keys" and "?T = 0"
    then have "\<forall>x \<in> set (map ?m ?keys). x = 0" by (intro nonneg_sum_zero[OF nn])
    then show "?m k = 0" using k by simp
  qed
  have terms: "map replace_nan (map2 fmul (group_weights gv fv df) (group_entropies gv fv df))
      = map Fin (map (\<lambda>k. if ?m k = 0 then 0 else ?m k / ?T * ?e k) ?keys)"
    unfolding weights ents map2_map_map map_map comp_def
    by (rule map_cong[OF refl]) (rule replace_nan_term, simp, rule Tz)
  have 1: "expected_flow_entropy df gv fv = Fin (spec_expected_entropy df gv fv)"
    unfolding expected_flow_entropy_def nansum_def terms np_sum_map_Fin spec_expected_entropy_def
    by (rule arg_cong[where f = Fin], rule arg_cong[where f = sum_list], rule map_cong[OF refl]) simp
  have 2: "(\<forall>x \<in> set xs. 0 \<le> x) \<and> 0 < sum_list xs \<longrightarrow>
            calculate_entropy (map Fin xs) = Fin (shannon (map (\<lambda>a. a / sum_list xs) xs))"
    using calculate_entropy_pos by blast
  show ?thesis using 1 2 by (rule conjI)
qed

lemma ex_entropy_nonneg:
  "\<forall>r \<in> set ex_entropy_table. is_fin (flow_col Outflow r) \<and> 0 \<le> the_fin (flow_col Outflow r)"
  by (simp add: ex_entropy_table_def)

lemma ex_shannon: "shannon [1/2, 1/2, 0] = ln 2"
  by (simp add: shannon_def ln_div)

lemma ex_spec_expected: "spec_expected_entropy ex_entropy_table Source Outflow = ln 2"
  by (simp add: spec_expected_entropy_def group_keys_def group_mass_def group_vals_def
        ex_entropy_table_def shannon_def ln_div)

theorem expected_entropy_zero_conventions_witness:
  "map outflow ex_entropy_table = [Fin (1/2), Fin (1/2), Fin 0, Fin 0, Fin 0]
   \<and> group_keys Source ex_entropy_table = [''A'', ''B'']
   \<and> group_mass Source Outflow ex_entropy_table ''B'' = 0
   \<and> expected_flow_entropy ex_entropy_table Source Outflow = Fin (ln 2)
   \<and> calculate_entropy (map Fin [1/2, 1/2, 0]) = Fin (ln 2)"
  using expected_entropy_zero_conventions [OF ex_entropy_nonneg, of Source "[1/2, 1/2, 0]"]
        ex_spec_expected ex_shannon
  by (simp add: ex_entropy_table_def group_keys_def group_mass_def group_vals_def)

section \<open>The entropy metric\<close>

lemma time_group_concat:
  assumes "distinct (map fst c)" "(k, df) \<in> set c"
  shows "time_group (concat (map (\<lambda>(k, df). map (\<lambda>r. (k, r)) df) c)) k = df"
  using assms
proof (induction c)
  case Nil then show ?case by simp
next
  case (Cons a c)
  obtain k' df' where a: "a = (k', df')" by (cases a)
  show ?case
  proof (cases "k' = k")
    case True
    then have "df' = df" using Cons.prems a by (auto simp: image_iff)
    moreover have "time_group (concat (map (\<lambda>(k, df). map (\<lambda>r. (k, r)) df) c)) k = []"
    proof -
      have "\<forall>x \<in> set c. fst x \<noteq> k" using Cons.prems(1) a True by (auto simp: image_iff)
      then show ?thesis by (auto simp: time_group_def filter_empty_conv)
    qed
    ultimately show ?thesis
      using a True by (simp add: time_group_def comp_def)
  next
    case False
    then have "(k, df) \<in> set c" using Cons.prems a by auto
    then have "time_group (concat (map (\<lambda>(k, df). map (\<lambda>r. (k, r)) df) c)) k = df"
      using Cons by simp
    moreover have "filter (\<lambda>kr. fst kr = k) (map (Pair k') df') = []"
      using False by (simp add: filter_empty_conv)
    ultimately show ?thesis
      using a by (simp add: time_group_def)
  qed
qed

lemma sort_remdups_set: "set xs = set ys \<Longrightarrow> sort (remdups xs) = sort (remdups ys)"
  by (metis sorted_list_of_set_sort_remdups)

lemma sort_remdups_map_Pair:
  "sort (remdups (map (Pair k) ys)) = map (Pair k) (sort (remdups ys))"
proof (rule sorted_distinct_set_unique)
  show "sorted (sort (remdups (map (Pair k) ys)))" by simp
  show "distinct (sort (remdups (map (Pair k) ys)))" by simp
  have "sorted (sort (remdups ys))" by simp
  then show "sorted (map (Pair k) (sort (remdups ys)))"
    by (simp add: sorted_map)
  show "distinct (map (Pair k) (sort (remdups ys)))"
    by (simp add: distinct_map inj_on_def)
  show "set (sort (remdups (map (Pair k) ys))) = set (map (Pair k) (sort (remdups ys)))"
    by simp
qed

lemma filter_pairs_time_group:
  "filter (\<lambda>kg. fst kg = k) (map (\<lambda>kr. (fst kr, group_col gv (snd kr))) frame)
     = map (Pair k) (map (group_col gv) (time_group frame k))"
  by (induction frame) (auto simp: time_group_def)

lemma group_vals_time_group:
  "map (flow_col fv \<circ> snd) (filter (\<lambda>kr. fst kr = k \<and> group_col gv (snd kr) = g) frame)
     = group_vals gv fv (time_group frame k) g"
  by (induction frame) (auto simp: time_group_def group_vals_def)

lemma marginal_sizes_at:
  "map snd (filter (\<lambda>e. fst (fst e) = k) (marginal_sizes gv fv frame))
     = group_sums gv fv (time_group frame k)"
proof -
  let ?P = "map (\<lambda>kr. (fst kr, group_col gv (snd kr))) frame"
  let ?G = "\<lambda>kg. (kg, series_sum (map (flow_col fv \<circ> snd)
                       (filter (\<lambda>kr. fst kr = fst kg \<and> group_col gv (snd kr) = snd kg) frame)))"
  have a: "filter (\<lambda>e. fst (fst e) = k) (map ?G (sort (remdups ?P)))
         = map ?G (filter (\<lambda>kg. fst kg = k) (sort (remdups ?P)))"
    by (simp add: filter_map comp_def)
  have b: "filter (\<lambda>kg. fst kg = k) (sort (remdups ?P))
         = sort (remdups (filter (\<lambda>kg. fst kg = k) ?P))"
    by (simp only: filter_sort remdups_filter)
  have c: "sort (remdups (filter (\<lambda>kg. fst kg = k) ?P))
         = map (Pair k) (group_keys gv (time_group frame k))"
    by (simp only: filter_pairs_time_group sort_remdups_map_Pair group_keys_def)
  show ?thesis
    unfolding marginal_sizes_def a b c
    by (simp add: group_sums_def comp_def group_vals_time_group[unfolded comp_def])
qed

lemma marginal_sizes_keys:
  "sort (remdups (map (fst \<circ> fst) (marginal_sizes gv fv frame))) = time_keys frame"
  unfolding time_keys_def
  by (rule sort_remdups_set) (force simp: marginal_sizes_def)

lemma map_of_keyed: "map_of (map (\<lambda>k. (k, f k)) ks) k = (if k \<in> set ks then Some (f k) else None)"
  by (induction ks) auto

lemma sizes_entropy_at:
  "map_of (sizes_entropy (marginal_sizes gv fv frame)) k
     = (if k \<in> set (time_keys frame)
        then Some (calculate_entropy (group_sums gv fv (time_group frame k))) else None)"
  by (simp only: sizes_entropy_def marginal_sizes_keys marginal_sizes_at map_of_keyed)

lemma map_of_direction:
  "map_of (map (\<lambda>(k, v). ((d, k), v)) a) (d', k) = (if d = d' then map_of a k else None)"
  by (induction a) auto

lemma map_of_with_direction:
  "map_of (with_direction a b) (Forward, k) = map_of a k"
  "map_of (with_direction a b) (Backward, k) = (map_of b k)"
  by (simp_all add: with_direction_def map_of_append map_of_direction map_add_def
        split: option.splits)

lemma map_of_aligned:
  "map_of (map (\<lambda>(i, e). (i, e, g i)) xs) i = map_option (\<lambda>e. (e, g i)) (map_of xs i)"
  by (induction xs) auto

lemma time_keys_mem: "k \<in> set (time_keys frame) \<longleftrightarrow> time_group frame k \<noteq> []"
  by (auto simp: time_keys_def time_group_def filter_empty_conv image_iff)

text \<open>
  C1, as the code has it. For every cached span \<open>(t0, t1)\<close> with a non-empty table, the
  entropy metric reports under \<open>forward\<close> the expected entropy of \<open>outflow\<close> grouped by
  source together with, as prior, the entropy of the target marginal (the sums of
  \<open>inflow\<close> grouped by target); under \<open>backward\<close> the expected entropy of \<open>inflow\<close>
  grouped by target together with, as prior, the entropy of the source marginal (the
  sums of \<open>outflow\<close> grouped by source). The keys of the cache are distinct, as those of
  a dict are.
\<close>

theorem prior_entropy_marginals:
  assumes "flow_dfs s = Some c" "distinct (map fst c)" "(k, df) \<in> set c" "df \<noteq> []"
  shows "\<exists>tab. compute_flow_entropy s = Inr tab
           \<and> map_of tab (Forward, k)
               = Some (expected_flow_entropy df Source Outflow,
                       calculate_entropy (group_sums Target Inflow df))
           \<and> map_of tab (Backward, k)
               = Some (expected_flow_entropy df Target Inflow,
                       calculate_entropy (group_sums Source Outflow df))"
proof -
  define frame where "frame = concat (map (\<lambda>(k, df). map (\<lambda>r. (k, r)) df) c)"
  have cne: "c \<noteq> []" using assms(3) by auto
  have cf: "concat_frames c = Inr frame"
    using cne by (simp add: concat_frames_def frame_def)
  have tg: "time_group frame k = df"
    unfolding frame_def by (rule time_group_concat[OF assms(2,3)])
  have km: "k \<in> set (time_keys frame)"
    using tg assms(4) by (simp add: time_keys_mem)
  define eo where "eo = map (\<lambda>k. (k, expected_flow_entropy (time_group frame k) Source Outflow))
                          (time_keys frame)"
  define ei where "ei = map (\<lambda>k. (k, expected_flow_entropy (time_group frame k) Target Inflow))
                          (time_keys frame)"
  define prior where "prior = with_direction (sizes_entropy (marginal_sizes Target Inflow frame))
                                (sizes_entropy (marginal_sizes Source Outflow frame))"
  define tab where "tab = map (\<lambda>(i, e). (i, e, (case map_of prior i of None \<Rightarrow> NaN | Some p \<Rightarrow> p)))
                            (with_direction eo ei)"
  have res: "compute_flow_entropy s = Inr tab"
    by (simp add: compute_flow_entropy_def assms(1) cf bindE_def Let_def tab_def prior_def
          eo_def ei_def)
  have eo: "map_of eo k = Some (expected_flow_entropy df Source Outflow)"
    unfolding eo_def by (simp only: map_of_keyed km tg if_True)
  have ei: "map_of ei k = Some (expected_flow_entropy df Target Inflow)"
    unfolding ei_def by (simp only: map_of_keyed km tg if_True)
  have pf: "map_of prior (Forward, k) = Some (calculate_entropy (group_sums Target Inflow df))"
    unfolding prior_def by (simp only: map_of_with_direction sizes_entropy_at km tg if_True)
  have pb: "map_of prior (Backward, k) = Some (calculate_entropy (group_sums Source Outflow df))"
    unfolding prior_def by (simp only: map_of_with_direction sizes_entropy_at km tg if_True)
  have f: "map_of tab (Forward, k)
               = Some (expected_flow_entropy df Source Outflow,
                       calculate_entropy (group_sums Target Inflow df))"
    unfolding tab_def map_of_aligned map_of_with_direction by (simp add: eo pf)
  have b: "map_of tab (Backward, k)
               = Some (expected_flow_entropy df Target Inflow,
                       calculate_entropy (group_sums Source Outflow df))"
    unfolding tab_def map_of_aligned map_of_with_direction by (simp add: ei pb)
  show ?thesis using res f b by blast
qed

lemma ex_concat: "concat_frames [((0, 1), ex_table)] = Inr ex_keyed"
  by (simp add: concat_frames_def ex_keyed_def)

lemma ex_time_keys: "time_keys ex_keyed = [(0, 1)]"
  by (simp add: time_keys_def ex_keyed_def ex_table_def)

lemma ex_time_group: "time_group ex_keyed (0, 1) = ex_table"
  by (simp add: time_group_def ex_keyed_def filter_map comp_def)

lemmas entropy_defs = expected_flow_entropy_def group_weights_def group_sums_def
  group_entropies_def group_keys_def group_vals_def calculate_entropy_def series_sum_def
  np_sum_def nansum_def replace_nan_def

lemma ex_expected_out: "expected_flow_entropy ex_table Source Outflow = Fin 0"
  by (simp add: ex_table_def entropy_defs)

lemma ex_expected_in: "expected_flow_entropy ex_table Target Inflow = Fin (ln 2)"
  by (simp add: ex_table_def entropy_defs ln_div)

lemma ex_src_marginal: "calculate_entropy (group_sums Source Outflow ex_table) = Fin (ln 2)"
  by (simp add: ex_table_def entropy_defs ln_div)

lemma ex_tgt_marginal: "calculate_entropy (group_sums Target Inflow ex_table) = Fin 0"
  by (simp add: ex_table_def entropy_defs)

lemma ex_src_prior: "sizes_entropy (marginal_sizes Source Outflow ex_keyed) = [((0, 1), Fin (ln 2))]"
  unfolding sizes_entropy_def marginal_sizes_keys ex_time_keys
  by (simp add: marginal_sizes_at ex_time_group ex_src_marginal)

lemma ex_tgt_prior: "sizes_entropy (marginal_sizes Target Inflow ex_keyed) = [((0, 1), Fin 0)]"
  unfolding sizes_entropy_def marginal_sizes_keys ex_time_keys
  by (simp add: marginal_sizes_at ex_time_group ex_tgt_marginal)

lemma ex_entropy:
  "compute_flow_entropy ex_cached
     = Inr [((Forward, 0, 1), Fin 0, Fin 0), ((Backward, 0, 1), Fin (ln 2), Fin (ln 2))]"
proof -
  have c: "flow_dfs ex_cached = Some [((0, 1), ex_table)]" by (simp add: ex_cached_def)
  show ?thesis
    unfolding compute_flow_entropy_def c
    by (simp add: ex_concat bindE_def Let_def ex_time_keys ex_time_group ex_expected_out
          ex_expected_in ex_src_prior ex_tgt_prior with_direction_def)
qed

theorem prior_entropy_marginals_witness:
  "flow_dfs ex_cached = Some [((0, 1), ex_table)]
   \<and> distinct (map fst [((0::real, 1::real), ex_table)])
   \<and> ex_table \<noteq> []
   \<and> map_of [((Forward, 0, 1), Fin 0, Fin 0), ((Backward, 0, 1), Fin (ln 2), Fin (ln 2))]
        (Forward, 0, 1)
       = Some (expected_flow_entropy ex_table Source Outflow,
               calculate_entropy (group_sums Target Inflow ex_table))
   \<and> map_of [((Forward, 0, 1), Fin 0, Fin 0), ((Backward, 0, 1), Fin (ln 2), Fin (ln 2))]
        (Backward, 0, 1)
       = Some (expected_flow_entropy ex_table Target Inflow,
               calculate_entropy (group_sums Source Outflow ex_table))"
proof -
  have c: "flow_dfs ex_cached = Some [((0, 1), ex_table)]" by (simp add: ex_cached_def)
  have d: "distinct (map fst [((0::real, 1::real), ex_table)])" by simp
  have m: "((0, 1), ex_table) \<in> set [((0, 1), ex_table)]" by simp
  have n: "ex_table \<noteq> []" by (simp add: ex_table_def)
  show ?thesis
    using prior_entropy_marginals [OF c d m n] c n
    by (auto simp: ex_entropy)
qed

theorem prior_entropy_direction_counterexample:
  "calculate_flows ex_sankey 0 1 = (Inr ex_table, ex_cached)
   \<and> compute_flow_entropy ex_cached
       = Inr [((Forward, 0, 1), Fin 0, Fin 0), ((Backward, 0, 1), Fin (ln 2), Fin (ln 2))]
   \<and> calculate_entropy (group_sums Source Outflow ex_table) = Fin (ln 2)
   \<and> calculate_entropy (group_sums Target Inflow ex_table) = Fin 0
   \<and> Fin (ln 2) \<noteq> Fin 0"
  by (simp add: ex_calc ex_entropy ex_src_marginal ex_tgt_marginal)

end
